theory Spec2Isabelle
  imports Complex_Main "HOL-Library.List_Lexorder" "HOL-Library.Char_ord" "HOL-Library.Sublist"
begin

section \<open>The self-gating web collection engine (agents/web\_collection.py)\<close>

text \<open>
  A shallow embedding of \<^verbatim>\<open>WebCollectionAgent\<close>. Python strings are \<open>string\<close>:
  lists of code points below 256, ordered as Python orders code points. Python integers are
  \<open>int\<close>, list lengths are \<open>nat\<close>. The decimal constants of the scoring rule (0.5, 0.2, 0.1,
  0.7, ...) and the scores computed from them are exact rationals (\<open>rat\<close>): the model reads
  such a float as the decimal number the program text writes. (On the sixteen combinations
  of source type, category and recency that the scoring rule distinguishes, binary floating
  point gives the same rounded score and the same label.) The one float computation whose
  result depends on how the interpreter adds, the mean of the scores, is a parameter.
  Dictionaries with a fixed key set are records; \<^verbatim>\<open>dict.get(k, default)\<close> on a key the record
  always has is the field.
\<close>

subsection \<open>Documents\<close>

text \<open>The dictionary built by \<^verbatim>\<open>_analyze_documents\<close> (lines 350-372), key by key.\<close>

record doc =
  doc_id :: string
  url :: string
  title :: string
  content :: string
  excerpt :: string
  two_line_summary :: "string option"
  source_type :: string
  source_category :: string
  publisher :: "string option"
  author :: "string option"
  date :: "string option"
  age_days :: int
  is_recent :: bool
  reliability :: string
  reliability_score :: rat
  reliability_reasons :: "string list"
  evidence_tier :: string
  is_verified :: bool
  verified_by :: "string list"
  collected_by :: string
  collected_at :: string

subsection \<open>Reliability scoring: \<^verbatim>\<open>_calculate_reliability\<close> (lines 438-475)\<close>

text \<open>\<^verbatim>\<open>category_bonus.get(doc.get("source_category"), 0.0)\<close>\<close>

definition category_bonus :: "string \<Rightarrow> rat" where
  "category_bonus c =
     (if c = ''company'' then 1/10
      else if c = ''news'' then 0
      else if c = ''blog'' then - (1/10)
      else 0)"

text \<open>
  Python's \<^verbatim>\<open>round(x, 2)\<close> on the exact value: the nearest multiple of 0.01, a tie going
  to the even one.
\<close>

definition round_half_even :: "rat \<Rightarrow> int" where
  "round_half_even x =
     (let f = \<lfloor>x\<rfloor>; r = x - of_int f
      in if r < 1/2 then f
         else if 1/2 < r then f + 1
         else if even f then f else f + 1)"

definition round2 :: "rat \<Rightarrow> rat" where
  "round2 x = of_int (round_half_even (x * 100)) / 100"

text \<open>The score before rounding: the three additions and the clamp of line 458.\<close>

definition raw_score :: "doc \<Rightarrow> rat" where
  "raw_score d =
     (let score = 1/2;
          score = (if source_type d = ''primary'' then score + 2/10 else score);
          score = score + category_bonus (source_category d);
          score = (if is_recent d then score + 1/10 else score)
      in max 0 (min 1 score))"

definition score_reasons :: "doc \<Rightarrow> string list" where
  "score_reasons d =
     (if source_type d = ''primary'' then [''primary source''] else []) @
     (if is_recent d then [''recent within policy window''] else [])"

text \<open>The returned dictionary: reliability, reliability\_score, reliability\_reasons, evidence\_tier.\<close>

record reliability_result =
  r_reliability :: string
  r_reliability_score :: rat
  r_reliability_reasons :: "string list"
  r_evidence_tier :: string

definition calculate_reliability :: "doc \<Rightarrow> reliability_result" where
  "calculate_reliability d =
     (let score = raw_score d;
          (rel, tier) =
            (if 7/10 \<le> score then (''high'', ''tier1'')
             else if 4/10 \<le> score then (''medium'', ''tier2'')
             else (''low'', ''tier3''))
      in \<lparr>r_reliability = rel,
          r_reliability_score = round2 score,
          r_reliability_reasons = score_reasons d,
          r_evidence_tier = tier\<rparr>)"

text \<open>\<^verbatim>\<open>doc.update(reliability)\<close>\<close>

definition doc_update :: "doc \<Rightarrow> reliability_result \<Rightarrow> doc" where
  "doc_update d r =
     d\<lparr>reliability := r_reliability r,
       reliability_score := r_reliability_score r,
       reliability_reasons := r_reliability_reasons r,
       evidence_tier := r_evidence_tier r\<rparr>"

subsection \<open>Aggregation: \<^verbatim>\<open>_calculate_statistics\<close> (lines 477-523)\<close>

record stats =
  sources_breakdown :: "(string \<times> int) list"
  primary_sources_count :: int
  secondary_sources_count :: int
  newest_date :: "string option"
  oldest_date :: "string option"
  recent_documents_count :: int
  high_reliability_count :: int
  medium_reliability_count :: int
  low_reliability_count :: int
  average_reliability :: rat

definition empty_stats :: stats where
  "empty_stats =
     \<lparr>sources_breakdown = [],
      primary_sources_count = 0,
      secondary_sources_count = 0,
      newest_date = None,
      oldest_date = None,
      recent_documents_count = 0,
      high_reliability_count = 0,
      medium_reliability_count = 0,
      low_reliability_count = 0,
      average_reliability = 0\<rparr>"

text \<open>
  A dictionary whose keys are data is an association list in insertion order:
  \<^verbatim>\<open>d.get(k, dflt)\<close> and \<^verbatim>\<open>d[k] = v\<close>.
\<close>

definition dict_get :: "('k \<times> 'v) list \<Rightarrow> 'k \<Rightarrow> 'v \<Rightarrow> 'v" where
  "dict_get al k dflt = (case map_of al k of None \<Rightarrow> dflt | Some v \<Rightarrow> v)"

fun dict_set :: "('k \<times> 'v) list \<Rightarrow> 'k \<Rightarrow> 'v \<Rightarrow> ('k \<times> 'v) list" where
  "dict_set [] k v = [(k, v)]"
| "dict_set ((k', v') # al) k v = (if k' = k then (k, v) # al else (k', v') # dict_set al k v)"

text \<open>One pass of the loop of lines 494-512.\<close>

definition stats_step :: "doc \<Rightarrow> stats \<Rightarrow> stats" where
  "stats_step d s =
     (let cat = source_category d;
          s = s\<lparr>sources_breakdown := dict_set (sources_breakdown s) cat
                  (dict_get (sources_breakdown s) cat 0 + 1)\<rparr>;
          s = (if source_type d = ''primary''
               then s\<lparr>primary_sources_count := primary_sources_count s + 1\<rparr>
               else s\<lparr>secondary_sources_count := secondary_sources_count s + 1\<rparr>);
          s = (if is_recent d
               then s\<lparr>recent_documents_count := recent_documents_count s + 1\<rparr>
               else s);
          rel = reliability d
      in if rel = ''high'' then s\<lparr>high_reliability_count := high_reliability_count s + 1\<rparr>
         else if rel = ''medium'' then s\<lparr>medium_reliability_count := medium_reliability_count s + 1\<rparr>
         else s\<lparr>low_reliability_count := low_reliability_count s + 1\<rparr>)"

text \<open>\<^verbatim>\<open>[doc.get("date") for doc in documents if doc.get("date")]\<close>: an empty string is falsy.\<close>

definition present_dates :: "doc list \<Rightarrow> string list" where
  "present_dates docs = concat (map (\<lambda>d. case date d of None \<Rightarrow> [] | Some s \<Rightarrow> (if s = [] then [] else [s])) docs)"

definition max_list :: "string list \<Rightarrow> string" where
  "max_list xs = fold max (tl xs) (hd xs)"

definition min_list :: "string list \<Rightarrow> string" where
  "min_list xs = fold min (tl xs) (hd xs)"

text \<open>
  Lines 519-521: \<^verbatim>\<open>sum(...) / len(documents)\<close> is computed in binary floating point, and its
  last bit depends on the order and the kind of the additions (\<^verbatim>\<open>sum\<close> compensates its
  rounding errors from Python 3.12 on, and not before): for the scores 0.4, 0.4, 0.4, 0.5
  the plain sum gives a mean just above 0.425, which rounds to 0.43, where the exact mean
  0.425 rounds to 0.42. So the mean is a parameter: \<open>float_mean xs\<close> is the value of
  \<^verbatim>\<open>sum(xs) / len(xs)\<close> on the floats that the decimals \<open>xs\<close> stand for. \<open>exact_mean\<close> is the
  mean without rounding error, which the examples use on lists where it makes no difference.
\<close>

type_synonym float_mean = "rat list \<Rightarrow> rat"

definition exact_mean :: float_mean where
  "exact_mean xs = sum_list xs / of_nat (length xs)"

definition calculate_statistics :: "float_mean \<Rightarrow> doc list \<Rightarrow> stats" where
  "calculate_statistics fmean documents =
     (if documents = [] then empty_stats
      else
        let s = fold stats_step documents empty_stats;
            dates = present_dates documents;
            s = (if dates \<noteq> [] then s\<lparr>newest_date := Some (max_list dates), oldest_date := Some (min_list dates)\<rparr> else s);
            avg_rel = fmean (map reliability_score documents)
        in s\<lparr>average_reliability := round2 avg_rel\<rparr>)"

subsection \<open>URLs\<close>

text \<open>
  \<^verbatim>\<open>urllib.parse.urlparse\<close> is the standard library's; the model takes it as a parameter
  \<open>up\<close> that returns the six components, or \<open>None\<close> where it raises.
\<close>

record url_parts =
  scheme :: string
  netloc :: string
  path :: string
  params :: string
  query :: string
  fragment :: string

type_synonym urlparse = "string \<Rightarrow> url_parts option"

text \<open>
  \<^verbatim>\<open>str.lower\<close> on the code points below 256: the capitals A to Z, and those of the range
  0xC0 to 0xDE (without the multiplication sign 0xD7), go to the code point 32 above.
\<close>

definition lower_char :: "char \<Rightarrow> char" where
  "lower_char c =
     (let n = (of_char c :: nat)
      in if (65 \<le> n \<and> n \<le> 90) \<or> (192 \<le> n \<and> n \<le> 222 \<and> n \<noteq> 215) then char_of (n + 32) else c)"

definition lower :: "string \<Rightarrow> string" where
  "lower s = map lower_char s"

text \<open>\<^verbatim>\<open>_normalize_url\<close> (lines 601-607): the except branch returns the URL as it came.\<close>

definition normalize_url :: "urlparse \<Rightarrow> string \<Rightarrow> string" where
  "normalize_url up u =
     (case up u of
        None \<Rightarrow> u
      | Some p \<Rightarrow> scheme p @ ''://'' @ lower (netloc p) @ path p)"

text \<open>\<^verbatim>\<open>_distinct_domains\<close> (lines 609-620).\<close>

definition distinct_domains :: "urlparse \<Rightarrow> doc list \<Rightarrow> string set" where
  "distinct_domains up documents =
     fold (\<lambda>d ds. case up (url d) of
                     None \<Rightarrow> ds
                   | Some p \<Rightarrow> (let host = lower (netloc p) in if host \<noteq> [] then insert host ds else ds))
          documents {}"

subsection \<open>The gate: \<^verbatim>\<open>_evaluate_gate\<close> (lines 526-568)\<close>

record threshold_profile =
  min_docs :: int
  min_primary :: int
  recent_window_days :: int
  min_recent :: int
  avg_rel_min :: rat
  low_ratio_max :: rat
  distinct_domains_min :: int
  category_diversity_min :: int
  max_attempts :: int

text \<open>
  The reasons are Korean f-strings; each is a constructor that carries the two interpolated
  values, in the order of lines 534, 538, 542, 547, 554, 559 and 565.
\<close>

datatype reason =
  DocsShort nat int
| PrimaryShort int int
| RecentShort int int
| AvgRelLow rat rat
| LowRatioHigh rat rat
| DomainsShort nat int
| CategoriesShort nat int

text \<open>\<^verbatim>\<open>(low_cnt / total) if total > 0 else 1.0\<close>\<close>

definition low_ratio :: "int \<Rightarrow> nat \<Rightarrow> rat" where
  "low_ratio low_cnt total_docs = (if 0 < total_docs then of_int low_cnt / of_nat total_docs else 1)"

text \<open>\<^verbatim>\<open>len([k for k, v in stats.get("sources_breakdown", {}).items() if v > 0])\<close>\<close>

definition category_div :: "stats \<Rightarrow> nat" where
  "category_div s = length (filter (\<lambda>(k, v). 0 < v) (sources_breakdown s))"

text \<open>
  The seven checks in source order (lines 531-565), each threading the pair
  (missing, reasons).
\<close>

definition gate_checks :: "urlparse \<Rightarrow> doc list \<Rightarrow> stats \<Rightarrow> threshold_profile \<Rightarrow> string list \<times> reason list" where
  "gate_checks up documents st policy =
     (let total_docs = length documents;
          (missing, reasons) = ([], []);
          (missing, reasons) =
            (if int total_docs < min_docs policy
             then (missing @ [''docs_count''], reasons @ [DocsShort total_docs (min_docs policy)])
             else (missing, reasons));
          (missing, reasons) =
            (if primary_sources_count st < min_primary policy
             then (missing @ [''primary''], reasons @ [PrimaryShort (primary_sources_count st) (min_primary policy)])
             else (missing, reasons));
          (missing, reasons) =
            (if recent_documents_count st < min_recent policy
             then (missing @ [''recent''], reasons @ [RecentShort (recent_documents_count st) (min_recent policy)])
             else (missing, reasons));
          avg_rel = average_reliability st;
          (missing, reasons) =
            (if avg_rel < avg_rel_min policy
             then (missing @ [''reliability''], reasons @ [AvgRelLow avg_rel (avg_rel_min policy)])
             else (missing, reasons));
          low_cnt = low_reliability_count st;
          lr = low_ratio low_cnt total_docs;
          (missing, reasons) =
            (if low_ratio_max policy < lr
             then ((if ''reliability'' \<notin> set missing then missing @ [''reliability''] else missing),
                   reasons @ [LowRatioHigh lr (low_ratio_max policy)])
             else (missing, reasons));
          dd = card (distinct_domains up documents);
          (missing, reasons) =
            (if int dd < distinct_domains_min policy
             then (missing @ [''diversity''], reasons @ [DomainsShort dd (distinct_domains_min policy)])
             else (missing, reasons));
          cd = category_div st;
          (missing, reasons) =
            (if int cd < category_diversity_min policy
             then ((if ''diversity'' \<notin> set missing then missing @ [''diversity''] else missing),
                   reasons @ [CategoriesShort cd (category_diversity_min policy)])
             else (missing, reasons))
      in (missing, reasons))"

text \<open>Lines 567-568: \<^verbatim>\<open>passed = (len(missing) == 0); return passed, sorted(set(missing)), reasons\<close>\<close>

definition evaluate_gate :: "urlparse \<Rightarrow> doc list \<Rightarrow> stats \<Rightarrow> threshold_profile \<Rightarrow> bool \<times> string list \<times> reason list" where
  "evaluate_gate up documents st policy =
     (let (missing, reasons) = gate_checks up documents st policy;
          passed = (length missing = 0)
      in (passed, sort (remdups missing), reasons))"

text \<open>The class constants of lines 24-33 as \<^verbatim>\<open>execute\<close> assembles them (lines 56-66).\<close>

definition default_profile :: threshold_profile where
  "default_profile =
     \<lparr>min_docs = 50,
      min_primary = 2,
      recent_window_days = 180,
      min_recent = 3,
      avg_rel_min = 6/10,
      low_ratio_max = 3/10,
      distinct_domains_min = 4,
      category_diversity_min = 2,
      max_attempts = 2\<rparr>"

subsection \<open>Exceptions\<close>

text \<open>
  A raised exception: the name of its class, whether that class derives from
  \<^verbatim>\<open>Exception\<close> (of the built-in classes \<^verbatim>\<open>KeyboardInterrupt\<close>, \<^verbatim>\<open>SystemExit\<close> and
  \<^verbatim>\<open>GeneratorExit\<close> derive from \<^verbatim>\<open>BaseException\<close> only), and \<^verbatim>\<open>str(e)\<close>.
\<close>

datatype py_exception = Raised (exc_class: string) (exc_is_Exception: bool) (exc_msg: string)

subsection \<open>Dates\<close>

text \<open>
  \<^verbatim>\<open>datetime\<close> values of the standard library: the calendar date, the time of day in
  microseconds, and whether the value carries a time zone (is "aware").
\<close>

record datetime =
  dt_year :: int
  dt_month :: int
  dt_day :: int
  dt_micros :: int
  dt_aware :: bool

definition is_leap :: "int \<Rightarrow> bool" where
  "is_leap y = (y mod 4 = 0 \<and> (y mod 100 \<noteq> 0 \<or> y mod 400 = 0))"

definition days_in_month :: "int \<Rightarrow> int \<Rightarrow> int" where
  "days_in_month y m =
     (if m = 2 then (if is_leap y then 29 else 28)
      else if m = 4 \<or> m = 6 \<or> m = 9 \<or> m = 11 then 30
      else 31)"

text \<open>\<^verbatim>\<open>datetime(y, mo, d)\<close>: midnight, naive; \<open>None\<close> where it raises ValueError.\<close>

definition mk_datetime :: "int \<Rightarrow> int \<Rightarrow> int \<Rightarrow> datetime option" where
  "mk_datetime y m d =
     (if 1 \<le> y \<and> y \<le> 9999 \<and> 1 \<le> m \<and> m \<le> 12 \<and> 1 \<le> d \<and> d \<le> days_in_month y m
      then Some \<lparr>dt_year = y, dt_month = m, dt_day = d, dt_micros = 0, dt_aware = False\<rparr>
      else None)"

text \<open>The proleptic Gregorian ordinal (\<^verbatim>\<open>toordinal\<close>): day 1 is 0001-01-01.\<close>

definition days_before_year :: "int \<Rightarrow> int" where
  "days_before_year y = (y - 1) * 365 + (y - 1) div 4 - (y - 1) div 100 + (y - 1) div 400"

definition days_before_month :: "int \<Rightarrow> int \<Rightarrow> int" where
  "days_before_month y m = sum_list (map (days_in_month y) [1..m - 1])"

definition toordinal :: "datetime \<Rightarrow> int" where
  "toordinal dt = days_before_year (dt_year dt) + days_before_month (dt_year dt) (dt_month dt) + dt_day dt"

text \<open>
  The inverse (\<^verbatim>\<open>date.fromordinal\<close>): the year by 400-, 100-, 4- and 1-year cycles, then the
  month by counting down the days of the year.
\<close>

fun month_of_yday :: "int \<Rightarrow> nat \<Rightarrow> int \<Rightarrow> int \<Rightarrow> int \<times> int" where
  "month_of_yday y 0 m n = (m, n + 1)"
| "month_of_yday y (Suc k) m n =
     (if n < days_in_month y m then (m, n + 1) else month_of_yday y k (m + 1) (n - days_in_month y m))"

definition fromordinal :: "int \<Rightarrow> int \<times> int \<times> int" where
  "fromordinal ordinal =
     (let n = ordinal - 1;
          n400 = n div 146097; n = n mod 146097;
          n100 = n div 36524; n = n mod 36524;
          n4 = n div 1461; n = n mod 1461;
          n1 = n div 365; n = n mod 365;
          y = n400 * 400 + 1 + n100 * 100 + n4 * 4 + n1
      in if n1 = 4 \<or> n100 = 4 then (y - 1, 12, 31)
         else (let (m, d) = month_of_yday y 11 1 n in (y, m, d)))"

definition max_ordinal :: int where
  "max_ordinal = 3652059"

text \<open>Decimal digits, zero padded: \<^verbatim>\<open>"%04d-%02d-%02d"\<close> of \<^verbatim>\<open>date.isoformat\<close>.\<close>

definition digit_char :: "nat \<Rightarrow> char" where
  "digit_char n = char_of (48 + n mod 10)"

fun zpad :: "nat \<Rightarrow> nat \<Rightarrow> string" where
  "zpad 0 n = []"
| "zpad (Suc w) n = zpad w (n div 10) @ [digit_char n]"

definition isoformat_date :: "int \<Rightarrow> int \<Rightarrow> int \<Rightarrow> string" where
  "isoformat_date y m d = zpad 4 (nat y) @ ''-'' @ zpad 2 (nat m) @ ''-'' @ zpad 2 (nat d)"

text \<open>
  \<^verbatim>\<open>(now - doc_date).days\<close> for two naive values: the difference in whole days, rounded
  towards minus infinity.
\<close>

definition timedelta_days :: "datetime \<Rightarrow> datetime \<Rightarrow> int" where
  "timedelta_days now dt =
     ((toordinal now - toordinal dt) * 86400000000 + (dt_micros now - dt_micros dt)) div 86400000000"

subsection \<open>Text helpers\<close>

text \<open>
  The classes \<^verbatim>\<open>\d\<close> and \<^verbatim>\<open>[A-Za-z]\<close> of the patterns: below 256 the only decimal digits are
  0 to 9.
\<close>

definition is_digit :: "char \<Rightarrow> bool" where
  "is_digit c = (CHR ''0'' \<le> c \<and> c \<le> CHR ''9'')"

definition is_alpha :: "char \<Rightarrow> bool" where
  "is_alpha c = ((CHR ''A'' \<le> c \<and> c \<le> CHR ''Z'') \<or> (CHR ''a'' \<le> c \<and> c \<le> CHR ''z''))"

text \<open>
  White space of \<^verbatim>\<open>str.strip\<close> and of the pattern \<^verbatim>\<open>\s\<close> among the code points below 256:
  0x09 to 0x0D, 0x1C to 0x20, the next-line control 0x85 and the no-break space 0xA0.
\<close>

definition is_space :: "char \<Rightarrow> bool" where
  "is_space c =
     (let n = (of_char c :: nat)
      in (9 \<le> n \<and> n \<le> 13) \<or> (28 \<le> n \<and> n \<le> 32) \<or> n = 133 \<or> n = 160)"

definition is_date_sep :: "char \<Rightarrow> bool" where
  "is_date_sep c = (c = CHR ''-'' \<or> c = CHR ''/'' \<or> c = CHR ''.'')"

definition strip :: "string \<Rightarrow> string" where
  "strip s = rev (dropWhile is_space (rev (dropWhile is_space s)))"

text \<open>\<^verbatim>\<open>int(s)\<close> on a string of decimal digits.\<close>

definition int_of_digits :: "string \<Rightarrow> int" where
  "int_of_digits s = fold (\<lambda>c a. a * 10 + (int (of_char c) - 48)) s 0"

subsection \<open>The two patterns of \<^verbatim>\<open>_parse_date\<close>\<close>

text \<open>
  A backtracking matcher in the small: a piece of a pattern maps the text to the list of
  its ways to match a prefix, (matched text, rest), the preferred way first. A greedy
  repetition \<^verbatim>\<open>c{lo,hi}\<close> prefers the longest run; \<^verbatim>\<open>c+\<close> is \<^verbatim>\<open>c{1,}\<close>. A sequence
  of pieces is the list comprehension over them, and \<^verbatim>\<open>re.search\<close> takes the first
  way at the leftmost start that has one.
\<close>

definition rx_rep :: "(char \<Rightarrow> bool) \<Rightarrow> nat \<Rightarrow> nat \<Rightarrow> string \<Rightarrow> (string \<times> string) list" where
  "rx_rep P lo hi s =
     (let n = min hi (length (takeWhile P s))
      in map (\<lambda>k. (take k s, drop k s)) (rev [lo..<Suc n]))"

definition rx_plus :: "(char \<Rightarrow> bool) \<Rightarrow> string \<Rightarrow> (string \<times> string) list" where
  "rx_plus P s = rx_rep P 1 (length s) s"

definition rx_opt :: "char \<Rightarrow> string \<Rightarrow> (string \<times> string) list" where
  "rx_opt c s = rx_rep (\<lambda>x. x = c) 0 1 s"

fun rx_search :: "(string \<Rightarrow> 'a list) \<Rightarrow> string \<Rightarrow> 'a option" where
  "rx_search here [] = (case here [] of [] \<Rightarrow> None | g # _ \<Rightarrow> Some g)"
| "rx_search here (c # s) = (case here (c # s) of [] \<Rightarrow> rx_search here s | g # _ \<Rightarrow> Some g)"

text \<open>\<^verbatim>\<open>(\d{4})[-/.](\d{1,2})[-/.](\d{1,2})\<close>: the groups (y, mo, d).\<close>

definition ymd_here :: "string \<Rightarrow> (string \<times> string \<times> string) list" where
  "ymd_here s =
     [(y, mo, d).
        (y, r1) \<leftarrow> rx_rep is_digit 4 4 s,
        (s1, r2) \<leftarrow> rx_rep is_date_sep 1 1 r1,
        (mo, r3) \<leftarrow> rx_rep is_digit 1 2 r2,
        (s2, r4) \<leftarrow> rx_rep is_date_sep 1 1 r3,
        (d, r5) \<leftarrow> rx_rep is_digit 1 2 r4]"

text \<open>\<^verbatim>\<open>([A-Za-z]+)\s+(\d{1,2}),?\s+(\d{4})\<close>: the groups (mon\_s, d, y).\<close>

definition mdy_here :: "string \<Rightarrow> (string \<times> string \<times> string) list" where
  "mdy_here s =
     [(mon_s, d, y).
        (mon_s, r1) \<leftarrow> rx_plus is_alpha s,
        (w1, r2) \<leftarrow> rx_plus is_space r1,
        (d, r3) \<leftarrow> rx_rep is_digit 1 2 r2,
        (c, r4) \<leftarrow> rx_opt (CHR '','') r3,
        (w2, r5) \<leftarrow> rx_plus is_space r4,
        (y, r6) \<leftarrow> rx_rep is_digit 4 4 r5]"

subsection \<open>\<^verbatim>\<open>_parse_date\<close> (lines 571-599)\<close>

text \<open>\<^verbatim>\<open>calendar.month_abbr\<close> and \<^verbatim>\<open>calendar.month_name\<close>: index 0 is the empty string.\<close>

definition month_abbr :: "string list" where
  "month_abbr = ['''', ''Jan'', ''Feb'', ''Mar'', ''Apr'', ''May'', ''Jun'',
                 ''Jul'', ''Aug'', ''Sep'', ''Oct'', ''Nov'', ''Dec'']"

definition month_name :: "string list" where
  "month_name = ['''', ''January'', ''February'', ''March'', ''April'', ''May'', ''June'',
                 ''July'', ''August'', ''September'', ''October'', ''November'', ''December'']"

text \<open>Line 589: \<^verbatim>\<open>{m.lower(): i for i, m in enumerate(month_abbr) if m}\<close>\<close>

definition abbr_map :: "(string \<times> int) list" where
  "abbr_map = [(lower m, int i). (i, m) \<leftarrow> enumerate 0 month_abbr, m \<noteq> []]"

text \<open>
  Line 590: \<^verbatim>\<open>mon_map.update({m.lower(): i for i in month_name if m})\<close>. The loop variable
  of this comprehension is \<^verbatim>\<open>i\<close>; the \<^verbatim>\<open>m\<close> it tests and lower-cases is not bound in
  it, so it is the function's own \<^verbatim>\<open>m\<close>: the match object of line 580. For each of the
  13 entries of \<^verbatim>\<open>month_name\<close> the filter \<^verbatim>\<open>if m\<close> asks whether that match object is
  truthy; where it is \<^verbatim>\<open>None\<close> nothing is produced, and otherwise \<^verbatim>\<open>m.lower()\<close> on a
  match object raises AttributeError (the result \<open>None\<close> here), which line 597 catches.
\<close>

definition name_entries :: "(string \<times> string \<times> string) option \<Rightarrow> (string \<times> int) list option" where
  "name_entries m = (if m = None \<or> month_name = [] then Some [] else None)"

text \<open>\<^verbatim>\<open>dict.update\<close> with the entries of another dictionary.\<close>

definition dict_update :: "('k \<times> 'v) list \<Rightarrow> ('k \<times> 'v) list \<Rightarrow> ('k \<times> 'v) list" where
  "dict_update al entries = fold (\<lambda>(k, v) a. dict_set a k v) entries al"

text \<open>
  \<^verbatim>\<open>datetime.fromisoformat\<close> is the standard library's and differs between Python
  versions; it is the parameter \<open>fromiso\<close>, \<open>None\<close> where it raises.
\<close>

type_synonym fromisoformat = "string \<Rightarrow> datetime option"

definition parse_date :: "fromisoformat \<Rightarrow> string option \<Rightarrow> datetime option" where
  "parse_date fromiso so =
     (case so of
        None \<Rightarrow> None
      | Some s0 \<Rightarrow>
          if s0 = [] then None
          else
            let s = strip s0 in
            case fromiso s of
              Some dt \<Rightarrow> Some dt
            | None \<Rightarrow>
                let m = rx_search ymd_here s in
                case m of
                  Some (y, mo, d) \<Rightarrow> mk_datetime (int_of_digits y) (int_of_digits mo) (int_of_digits d)
                | None \<Rightarrow>
                    let mon_map = abbr_map in
                    case name_entries m of
                      None \<Rightarrow> None
                    | Some entries \<Rightarrow>
                        let mon_map = dict_update mon_map entries;
                            m2 = rx_search mdy_here s
                        in case m2 of
                             None \<Rightarrow> None
                           | Some (mon_s, d, y) \<Rightarrow>
                               (case map_of mon_map (lower mon_s) of
                                  None \<Rightarrow> None
                                | Some mi \<Rightarrow>
                                    if mi \<noteq> 0
                                    then mk_datetime (int_of_digits y) mi (int_of_digits d)
                                    else None))"

subsection \<open>\<^verbatim>\<open>_assess_reliability\<close> (lines 416-436)\<close>

definition DEFAULT_RECENT_WINDOW_DAYS :: int where
  "DEFAULT_RECENT_WINDOW_DAYS = 180"

text \<open>
  One pass of the loop. \<^verbatim>\<open>now - doc_date\<close> raises TypeError when \<^verbatim>\<open>doc_date\<close> is
  aware, \<^verbatim>\<open>utcnow()\<close> being naive; nothing of the document is written before that.
\<close>

definition assess_doc :: "fromisoformat \<Rightarrow> datetime \<Rightarrow> doc \<Rightarrow> py_exception + doc" where
  "assess_doc fromiso now d =
     (case parse_date fromiso (date d) of
        Some doc_date \<Rightarrow>
          if dt_aware doc_date
          then Inl (Raised ''TypeError'' True
                 (''can'' @ [CHR 0x27] @ ''t subtract offset-naive and offset-aware datetimes''))
          else
            let age = timedelta_days now doc_date;
                d = d\<lparr>age_days := max 0 age,
                      is_recent := (age \<le> DEFAULT_RECENT_WINDOW_DAYS),
                      date := Some (isoformat_date (dt_year doc_date) (dt_month doc_date) (dt_day doc_date))\<rparr>
            in Inr (doc_update d (calculate_reliability d))
      | None \<Rightarrow>
          let d = d\<lparr>age_days := 9999, is_recent := False, date := None\<rparr>
          in Inr (doc_update d (calculate_reliability d)))"

text \<open>
  The loop mutates the documents of the list in place, so the list has a content whether
  the call returns or raises: the first component is that content, the second the
  exception, if any. \<open>now i\<close> is the clock reading taken for the document at position \<open>i\<close>.
\<close>

fun assess_from :: "fromisoformat \<Rightarrow> (nat \<Rightarrow> datetime) \<Rightarrow> nat \<Rightarrow> doc list \<Rightarrow> doc list \<times> py_exception option" where
  "assess_from fromiso now i [] = ([], None)"
| "assess_from fromiso now i (d # ds) =
     (case assess_doc fromiso (now i) d of
        Inl e \<Rightarrow> (d # ds, Some e)
      | Inr d' \<Rightarrow> (let (ds', r) = assess_from fromiso now (Suc i) ds in (d' # ds', r)))"

definition assess_reliability :: "fromisoformat \<Rightarrow> (nat \<Rightarrow> datetime) \<Rightarrow> doc list \<Rightarrow> doc list \<times> py_exception option" where
  "assess_reliability fromiso now documents = assess_from fromiso now 0 documents"

subsection \<open>The run's state (lines 50-95)\<close>

record gate_verdict =
  passed :: bool
  missing_slots :: "string list"
  reasons :: "reason list"

record log_entry =
  log_attempt :: int
  log_queries :: "string list"
  log_new_docs :: nat
  log_total_docs :: nat
  log_gate_passed :: bool
  log_missing_slots :: "string list"
  log_reasons :: "reason list"
  log_timestamp :: string

text \<open>
  \<^verbatim>\<open>state["web_collection"]\<close>: the keys of the statistics (spread into it by
  \<^verbatim>\<open>**stats\<close>) and its own; \<^verbatim>\<open>attempts\<close> is flattened into two fields.
\<close>

record web_collection_state = stats +
  status :: string
  documents :: "doc list"
  doc_count :: nat
  sources :: "string set"
  gate :: gate_verdict
  attempts_current :: int
  attempts_max :: int
  decision_log :: "log_entry list"
  profile :: threshold_profile
  error :: "string option"

record error_entry =
  err_stage :: string
  err_error :: string
  err_timestamp :: string
  err_recovered :: bool
  err_traceback :: "string option"
  err_impact_on_reliability :: string

text \<open>
  The pipeline state as far as this agent reads and writes it. \<open>errors\<close> is \<open>None\<close> when
  the key is absent or does not hold a list.
\<close>

record pipeline_state =
  company_name :: string
  domain :: string
  errors :: "error_entry list option"
  web_collection :: web_collection_state

definition initial_web_collection :: "threshold_profile \<Rightarrow> web_collection_state" where
  "initial_web_collection tp =
     \<lparr>sources_breakdown = [],
      primary_sources_count = 0,
      secondary_sources_count = 0,
      newest_date = None,
      oldest_date = None,
      recent_documents_count = 0,
      high_reliability_count = 0,
      medium_reliability_count = 0,
      low_reliability_count = 0,
      average_reliability = 0,
      status = ''insufficient'',
      documents = [],
      doc_count = 0,
      sources = {},
      gate = \<lparr>passed = False, missing_slots = [], reasons = []\<rparr>,
      attempts_current = 0,
      attempts_max = max_attempts tp,
      decision_log = [],
      profile = tp,
      error = None\<rparr>"

subsection \<open>Query planning: \<^verbatim>\<open>_build_queries\<close> (lines 196-257)\<close>

text \<open>\<^verbatim>\<open>_company_domain_hint\<close> (lines 622-625).\<close>

definition company_domain_hint :: "string \<Rightarrow> string" where
  "company_domain_hint cn =
     filter (\<lambda>c. (CHR ''a'' \<le> c \<and> c \<le> CHR ''z'') \<or> is_digit c) (lower cn) @ ''.com''"

definition base_queries :: "string \<Rightarrow> string \<Rightarrow> string list" where
  "base_queries cn dm =
     [cn @ '' '' @ dm @ '' company overview'',
      cn @ '' product features technology'',
      cn @ '' news press release'',
      cn @ '' case study'',
      cn @ '' whitepaper'',
      cn @ '' interview'',
      cn @ '' site:medium.com'',
      cn @ '' site:github.com'',
      cn @ '' site:linkedin.com'',
      cn @ '' funding announcement'']"

fun dec_digits :: "nat \<Rightarrow> string" where
  "dec_digits n = (if n < 10 then [digit_char n] else dec_digits (n div 10) @ [digit_char n])"

definition str_int :: "int \<Rightarrow> string" where
  "str_int k = (if k < 0 then ''-'' @ dec_digits (nat (- k)) else dec_digits (nat k))"

text \<open>
  \<^verbatim>\<open>(datetime.utcnow() - timedelta(days=n)).date().isoformat()\<close>: the standard library
  refuses a \<^verbatim>\<open>timedelta\<close> beyond 999999999 days and a date outside the years 1 to 9999.
\<close>

definition recent_cut_of :: "datetime \<Rightarrow> int \<Rightarrow> py_exception + string" where
  "recent_cut_of now n =
     (if 999999999 < \<bar>n\<bar>
      then Inl (Raised ''OverflowError'' True (''days='' @ str_int n @ ''; must have magnitude <= 999999999''))
      else
        let ordinal = toordinal now - n
        in if ordinal < 1 \<or> max_ordinal < ordinal
           then Inl (Raised ''OverflowError'' True ''date value out of range'')
           else Inr (let (y, m, d) = fromordinal ordinal in isoformat_date y m d))"

text \<open>The targeted queries of lines 227-255, for a cutoff date already computed.\<close>

definition targeted_queries :: "string \<Rightarrow> string \<Rightarrow> string list \<Rightarrow> string \<Rightarrow> string list" where
  "targeted_queries cn dm missing recent_cut =
     (let q = [];
          q = (if ''primary'' \<in> set missing
               then q @ [cn @ '' site:'' @ company_domain_hint cn @ '' (press OR newsroom OR investors)'',
                         cn @ '' press release site:'' @ company_domain_hint cn,
                         cn @ '' site:'' @ company_domain_hint cn @ '' blog'']
               else q);
          q = (if ''recent'' \<in> set missing
               then q @ [cn @ '' (\"launch\" OR \"announced\" OR \"funding\") after:'' @ recent_cut,
                         cn @ '' press release after:'' @ recent_cut]
               else q);
          q = (if ''docs_count'' \<in> set missing
               then q @ [cn @ '' '' @ dm @ '' case study pdf'',
                         cn @ '' '' @ dm @ '' whitepaper pdf'',
                         cn @ '' architecture overview'']
               else q);
          q = (if ''reliability'' \<in> set missing
               then q @ [cn @ '' site:sec.gov OR site:europa.eu OR site:ec.europa.eu'',
                         cn @ '' site:iso.org OR site:ieee.org standard'',
                         cn @ '' analyst report site:gartner.com OR site:forrester.com'']
               else q);
          q = (if ''diversity'' \<in> set missing
               then q @ [cn @ '' review technology analysis'',
                         cn @ '' '' @ dm @ '' industry report'',
                         cn @ '' competitors comparison'']
               else q)
      in q)"

text \<open>
  \<open>now\<close> is what \<^verbatim>\<open>datetime.utcnow()\<close> returns at line 225. The result is \<open>Inl\<close> where
  line 225 raises.
\<close>

definition build_queries :: "datetime \<Rightarrow> string \<Rightarrow> string \<Rightarrow> pipeline_state \<Rightarrow> py_exception + string list" where
  "build_queries now cn dm state =
     (let wc = web_collection state;
          attempt = attempts_current wc;
          missing = missing_slots (gate wc);
          base = base_queries cn dm
      in if attempt = 1 then Inr base
         else if missing = [] then Inr base
         else (case recent_cut_of now (recent_window_days (profile wc)) of
                 Inl e \<Rightarrow> Inl e
               | Inr recent_cut \<Rightarrow> Inr (base @ targeted_queries cn dm missing recent_cut)))"

subsection \<open>The collection loop: \<^verbatim>\<open>execute\<close> (lines 44-193)\<close>

text \<open>
  What the run takes from outside. \<open>search_and_analyze k queries\<close> is the list that
  \<^verbatim>\<open>_analyze_documents(_run_tavily_queries(queries), company_name)\<close> returns in attempt \<open>k\<close>
  (steps 2 and 3, whose results are the search service's and the language model's), or the
  exception that escapes from them. The clock readings are indexed by the attempt, and in
  \<^verbatim>\<open>_assess_reliability\<close> by the position of the document. \<open>float_mean\<close> is the interpreter's
  mean of line 520. The \<^verbatim>\<open>print\<close> statements are left out: standard output is taken to accept
  what they write.
\<close>

record env =
  urlparse :: urlparse
  fromisoformat :: fromisoformat
  utcnow_plan :: "int \<Rightarrow> datetime"
  utcnow_assess :: "int \<Rightarrow> nat \<Rightarrow> datetime"
  now_isoformat :: "int \<Rightarrow> string"
  handler_isoformat :: string
  float_mean :: float_mean
  search_and_analyze :: "int \<Rightarrow> string list \<Rightarrow> py_exception + doc list"

text \<open>Step 4 (lines 114-123): the new documents and the seen-set after them.\<close>

fun dedup :: "urlparse \<Rightarrow> doc list \<Rightarrow> string set \<Rightarrow> doc list \<times> string set" where
  "dedup up [] seen = ([], seen)"
| "dedup up (d # ds) seen =
     (if url d = [] then dedup up ds seen
      else
        let norm = normalize_url up (url d)
        in if norm \<in> seen then dedup up ds seen
           else (let (new_docs, seen') = dedup up ds (insert norm seen) in (d # new_docs, seen')))"

text \<open>
  The local variables of the loop, with the state. Step 8 stores the list object
  \<^verbatim>\<open>cumulative_docs\<close> itself under \<^verbatim>\<open>"documents"\<close>; from then on (\<open>shared\<close>) every change
  of that list (\<^verbatim>\<open>extend\<close>, the in-place re-assessment) is a change of the state's field
  too.
\<close>

record loop_state =
  st :: pipeline_state
  cumulative_docs :: "doc list"
  seen_urls :: "string set"
  shared :: bool

definition set_cumulative :: "doc list \<Rightarrow> loop_state \<Rightarrow> loop_state" where
  "set_cumulative docs ls =
     ls\<lparr>cumulative_docs := docs,
        st := (if shared ls
               then (st ls)\<lparr>web_collection := (web_collection (st ls))\<lparr>documents := docs\<rparr>\<rparr>
               else st ls)\<rparr>"

definition update_wc :: "(web_collection_state \<Rightarrow> web_collection_state) \<Rightarrow> loop_state \<Rightarrow> loop_state" where
  "update_wc f ls = ls\<lparr>st := (st ls)\<lparr>web_collection := f (web_collection (st ls))\<rparr>\<rparr>"

text \<open>\<^verbatim>\<open>**stats\<close> inside the \<^verbatim>\<open>update\<close> of step 8.\<close>

definition spread_stats :: "stats \<Rightarrow> web_collection_state \<Rightarrow> web_collection_state" where
  "spread_stats s wc =
     wc\<lparr>sources_breakdown := sources_breakdown s,
        primary_sources_count := primary_sources_count s,
        secondary_sources_count := secondary_sources_count s,
        newest_date := newest_date s,
        oldest_date := oldest_date s,
        recent_documents_count := recent_documents_count s,
        high_reliability_count := high_reliability_count s,
        medium_reliability_count := medium_reliability_count s,
        low_reliability_count := low_reliability_count s,
        average_reliability := average_reliability s\<rparr>"

datatype control = Continue | Break | Raise py_exception

text \<open>Steps 6 to 10 (lines 130-176), once the cumulative list is re-assessed.\<close>

definition gate_and_record :: "env \<Rightarrow> threshold_profile \<Rightarrow> int \<Rightarrow> string list \<Rightarrow> nat \<Rightarrow> loop_state \<Rightarrow> loop_state \<times> control" where
  "gate_and_record env policy attempt_no queries n_new ls =
     (let docs = cumulative_docs ls;
          s = calculate_statistics (float_mean env) docs;
          (gate_passed, missing, rs) = evaluate_gate (urlparse env) docs s policy;
          ls = update_wc (\<lambda>wc. (spread_stats s wc)
                 \<lparr>documents := docs,
                  doc_count := length docs,
                  sources := set (map source_category docs),
                  gate := \<lparr>passed = gate_passed, missing_slots = missing, reasons = rs\<rparr>,
                  status := (if gate_passed then ''completed'' else ''insufficient''),
                  error := None\<rparr>) ls;
          ls = ls\<lparr>shared := True\<rparr>;
          ls = update_wc (\<lambda>wc. wc\<lparr>decision_log := decision_log wc @
                 [\<lparr>log_attempt = attempt_no,
                   log_queries = queries,
                   log_new_docs = n_new,
                   log_total_docs = length docs,
                   log_gate_passed = gate_passed,
                   log_missing_slots = missing,
                   log_reasons = rs,
                   log_timestamp = now_isoformat env attempt_no\<rparr>]\<rparr>) ls
      in if gate_passed then (ls, Break)
         else if attempts_max (web_collection (st ls)) \<le> attempt_no
              then (update_wc (\<lambda>wc. wc\<lparr>status := ''partial''\<rparr>) ls, Break)
              else (ls, Continue))"

text \<open>
  One pass of the \<^verbatim>\<open>while\<close> body (lines 102-176): the state after it and how it ends.
  \<open>Raise\<close> is an exception on its way to the handler of line 180, with the state as the
  statements before it left it.
\<close>

definition attempt :: "env \<Rightarrow> threshold_profile \<Rightarrow> string \<Rightarrow> string \<Rightarrow> loop_state \<Rightarrow> loop_state \<times> control" where
  "attempt env policy cn dm ls0 =
     (let ls = update_wc (\<lambda>wc. wc\<lparr>attempts_current := attempts_current wc + 1\<rparr>) ls0;
          attempt_no = attempts_current (web_collection (st ls))
      in case build_queries (utcnow_plan env attempt_no) cn dm (st ls) of
           Inl e \<Rightarrow> (ls, Raise e)
         | Inr queries \<Rightarrow>
             (case search_and_analyze env attempt_no queries of
                Inl e \<Rightarrow> (ls, Raise e)
              | Inr analyzed_docs \<Rightarrow>
                  let (new_docs, seen) = dedup (urlparse env) analyzed_docs (seen_urls ls);
                      ls = ls\<lparr>seen_urls := seen\<rparr>;
                      ls = set_cumulative (cumulative_docs ls @ new_docs) ls;
                      (docs, r) = assess_reliability (fromisoformat env) (utcnow_assess env attempt_no)
                                    (cumulative_docs ls);
                      ls = set_cumulative docs ls
                  in case r of
                       Some e \<Rightarrow> (ls, Raise e)
                     | None \<Rightarrow> gate_and_record env policy attempt_no queries (length new_docs) ls))"

text \<open>Every pass counts the attempt and leaves the budget alone: the loop's measure.\<close>

lemma gate_and_record_attempts:
  "attempts_current (web_collection (st (fst (gate_and_record env policy k qs n ls))))
     = attempts_current (web_collection (st ls))
   \<and> attempts_max (web_collection (st (fst (gate_and_record env policy k qs n ls))))
     = attempts_max (web_collection (st ls))"
  by (simp add: gate_and_record_def update_wc_def spread_stats_def Let_def split: prod.splits)

lemma set_cumulative_attempts:
  "attempts_current (web_collection (st (set_cumulative docs ls))) = attempts_current (web_collection (st ls))
   \<and> attempts_max (web_collection (st (set_cumulative docs ls))) = attempts_max (web_collection (st ls))"
  by (simp add: set_cumulative_def)

lemma attempt_attempts:
  "attempts_current (web_collection (st (fst (attempt env policy cn dm ls))))
     = attempts_current (web_collection (st ls)) + 1
   \<and> attempts_max (web_collection (st (fst (attempt env policy cn dm ls))))
     = attempts_max (web_collection (st ls))"
  by (simp add: attempt_def Let_def gate_and_record_attempts set_cumulative_attempts update_wc_def
      split: sum.splits prod.splits option.splits)

text \<open>
  The \<^verbatim>\<open>while\<close> loop of line 101 with its two \<^verbatim>\<open>break\<close>s: the state it ends in and the
  exception that left it, if any.
\<close>

function run_loop :: "env \<Rightarrow> threshold_profile \<Rightarrow> string \<Rightarrow> string \<Rightarrow> loop_state \<Rightarrow> loop_state \<times> py_exception option" where
  "run_loop env policy cn dm ls =
     (if attempts_current (web_collection (st ls)) < attempts_max (web_collection (st ls))
      then (case attempt env policy cn dm ls of
              (ls', Continue) \<Rightarrow> run_loop env policy cn dm ls'
            | (ls', Break) \<Rightarrow> (ls', None)
            | (ls', Raise e) \<Rightarrow> (ls', Some e))
      else (ls, None))"
  by pat_completeness auto
termination
  by (relation "measure (\<lambda>(env, policy, cn, dm, ls).
        nat (attempts_max (web_collection (st ls)) - attempts_current (web_collection (st ls))))")
     (auto dest!: arg_cong [where f = fst] simp: attempt_attempts)

text \<open>The same loop, keeping the state after every pass and how the pass ended.\<close>

function loop_trace :: "env \<Rightarrow> threshold_profile \<Rightarrow> string \<Rightarrow> string \<Rightarrow> loop_state \<Rightarrow> (loop_state \<times> control) list" where
  "loop_trace env policy cn dm ls =
     (if attempts_current (web_collection (st ls)) < attempts_max (web_collection (st ls))
      then (case attempt env policy cn dm ls of
              (ls', Continue) \<Rightarrow> (ls', Continue) # loop_trace env policy cn dm ls'
            | (ls', Break) \<Rightarrow> [(ls', Break)]
            | (ls', Raise e) \<Rightarrow> [(ls', Raise e)])
      else [])"
  by pat_completeness auto
termination
  by (relation "measure (\<lambda>(env, policy, cn, dm, ls).
        nat (attempts_max (web_collection (st ls)) - attempts_current (web_collection (st ls))))")
     (auto dest!: arg_cong [where f = fst] simp: attempt_attempts)

text \<open>
  Lines 50-95 and 178-193, for the profile \<open>tp\<close> that lines 56-66 assemble. The handler of
  line 180 is \<^verbatim>\<open>except Exception\<close>: it turns an exception of the loop whose class derives
  from \<^verbatim>\<open>Exception\<close> into the status \<^verbatim>\<open>degraded\<close> and an entry of \<^verbatim>\<open>state["errors"]\<close>, and
  \<^verbatim>\<open>execute\<close> returns the state; any other exception passes it and leaves \<^verbatim>\<open>execute\<close>.
  The state is the caller's dictionary, changed in place, so it has a content either way:
  the first component is that content (what \<^verbatim>\<open>execute\<close> returns, when it returns), the second
  the exception that reaches the caller, if any.
\<close>

definition start_state :: "threshold_profile \<Rightarrow> pipeline_state \<Rightarrow> loop_state" where
  "start_state tp state0 =
     (let state = (case errors state0 of None \<Rightarrow> state0\<lparr>errors := Some []\<rparr> | Some es \<Rightarrow> state0);
          state = state\<lparr>web_collection := initial_web_collection tp\<rparr>
      in \<lparr>st = state, cumulative_docs = [], seen_urls = {}, shared = False\<rparr>)"

definition handle_exception :: "env \<Rightarrow> py_exception \<Rightarrow> pipeline_state \<Rightarrow> pipeline_state" where
  "handle_exception env e state =
     (let state = state\<lparr>web_collection :=
                    (web_collection state)\<lparr>status := ''degraded'', error := Some (exc_msg e)\<rparr>\<rparr>
      in state\<lparr>errors := map_option (\<lambda>es. es @
            [\<lparr>err_stage = ''web_collection'',
              err_error = exc_msg e,
              err_timestamp = handler_isoformat env,
              err_recovered = False,
              err_traceback = None,
              err_impact_on_reliability = ''high''\<rparr>]) (errors state)\<rparr>)"

definition execute_profile :: "env \<Rightarrow> threshold_profile \<Rightarrow> pipeline_state \<Rightarrow> pipeline_state \<times> py_exception option" where
  "execute_profile env tp state0 =
     (let cn = strip (company_name state0);
          dm = strip (domain state0);
          (ls, r) = run_loop env tp cn dm (start_state tp state0)
      in case r of
           None \<Rightarrow> (st ls, None)
         | Some e \<Rightarrow>
             if exc_is_Exception e then (handle_exception env e (st ls), None)
             else (st ls, Some e))"

definition execute :: "env \<Rightarrow> pipeline_state \<Rightarrow> pipeline_state \<times> py_exception option" where
  "execute env state0 = execute_profile env default_profile state0"

subsection \<open>A concrete run, for the examples\<close>

text \<open>
  Instances of the parameters. \<open>example_urlparse\<close> splits a URL of the plain shape
  \<^verbatim>\<open>scheme://host/path?query#fragment\<close> as \<^verbatim>\<open>urlparse\<close> does and never raises.
  \<open>example_fromisoformat\<close> reads \<^verbatim>\<open>YYYY-MM-DD\<close>, and \<^verbatim>\<open>YYYY-MM-DDT00:00:00+00:00\<close>
  as the aware value \<^verbatim>\<open>fromisoformat\<close> returns for it, and raises on every other string.
\<close>

definition example_urlparse :: urlparse where
  "example_urlparse u =
     (let sch = takeWhile (\<lambda>c. c \<noteq> CHR '':'') u;
          r0 = drop (length sch) u;
          has_netloc = (take 3 r0 = ''://'');
          r1 = (if has_netloc then drop 3 r0 else u);
          host = (if has_netloc then takeWhile (\<lambda>c. c \<notin> {CHR ''/'', CHR ''?'', CHR ''#''}) r1 else []);
          r2 = drop (length host) r1;
          pth = takeWhile (\<lambda>c. c \<notin> {CHR ''?'', CHR ''#''}) r2;
          r3 = drop (length pth) r2;
          qry = (if take 1 r3 = ''?'' then takeWhile (\<lambda>c. c \<noteq> CHR ''#'') (drop 1 r3) else []);
          r4 = dropWhile (\<lambda>c. c \<noteq> CHR ''#'') r3
      in Some \<lparr>scheme = (if has_netloc then lower sch else []), netloc = host, path = pth,
               params = [], query = qry, fragment = drop 1 r4\<rparr>)"

definition example_fromisoformat :: fromisoformat where
  "example_fromisoformat s =
     (let ymd = take 10 s; tl10 = drop 10 s
      in if list_all is_digit (take 4 ymd) \<and> take 1 (drop 4 ymd) = ''-''
            \<and> list_all is_digit (take 2 (drop 5 ymd)) \<and> take 1 (drop 7 ymd) = ''-''
            \<and> list_all is_digit (drop 8 ymd) \<and> length ymd = 10
            \<and> (tl10 = [] \<or> tl10 = ''T00:00:00+00:00'')
         then map_option (\<lambda>dt. dt\<lparr>dt_aware := (tl10 \<noteq> [])\<rparr>)
                (mk_datetime (int_of_digits (take 4 ymd)) (int_of_digits (take 2 (drop 5 ymd)))
                   (int_of_digits (drop 8 ymd)))
         else None)"

text \<open>A document as lines 350-372 build it, for the five values the classification gives.\<close>

definition analyzed_doc :: "string \<Rightarrow> string \<Rightarrow> string \<Rightarrow> string \<Rightarrow> string option \<Rightarrow> doc" where
  "analyzed_doc ident u ty cat dt =
     \<lparr>doc_id = ident, url = u, title = [], content = [], excerpt = [],
      two_line_summary = None, source_type = ty, source_category = cat,
      publisher = None, author = None, date = dt, age_days = 0, is_recent = False,
      reliability = ''medium'', reliability_score = 1/2, reliability_reasons = [],
      evidence_tier = ''tier2'', is_verified = False, verified_by = [],
      collected_by = ''web_collection'', collected_at = ''2026-11-05T09:00:00''\<rparr>"

definition example_now :: datetime where
  "example_now = \<lparr>dt_year = 2026, dt_month = 11, dt_day = 5, dt_micros = 0, dt_aware = False\<rparr>"

text \<open>
  Two attempts. The first finds one page twice (the second time with another query string
  and a capital in the host) and a hit without a URL; the second finds that page again and
  a new one.
\<close>

definition example_hits :: "int \<Rightarrow> doc list" where
  "example_hits k =
     (if k = 1
      then [analyzed_doc ''web_1'' ''https://acme.com/about?ref=1'' ''primary'' ''company'' (Some ''2026-10-01''),
            analyzed_doc ''web_2'' ''https://Acme.com/about?ref=2#team'' ''primary'' ''company'' None,
            analyzed_doc ''web_3'' [] ''secondary'' ''news'' None]
      else [analyzed_doc ''web_4'' ''https://ACME.com/about'' ''primary'' ''company'' None,
            analyzed_doc ''web_5'' ''https://news.example.org/acme'' ''secondary'' ''blog'' (Some ''January 5, 2024'')])"

definition example_env :: env where
  "example_env =
     \<lparr>urlparse = example_urlparse,
      fromisoformat = example_fromisoformat,
      utcnow_plan = (\<lambda>k. example_now),
      utcnow_assess = (\<lambda>k i. example_now),
      now_isoformat = (\<lambda>k. ''2026-11-05T09:00:01''),
      handler_isoformat = ''2026-11-05T09:00:02'',
      float_mean = exact_mean,
      search_and_analyze = (\<lambda>k qs. Inr (example_hits k))\<rparr>"

text \<open>The same, but the second attempt also finds a page whose date carries a UTC offset.\<close>

definition example_env_aware :: env where
  "example_env_aware =
     example_env\<lparr>search_and_analyze := (\<lambda>k qs. Inr (example_hits k @
        (if k = 2
         then [analyzed_doc ''web_6'' ''https://blog.example.org/acme'' ''secondary'' ''blog''
                 (Some ''2026-10-01T00:00:00+00:00'')]
         else [])))\<rparr>"

text \<open>The same as the first, but the search of the second attempt is interrupted from the keyboard.\<close>

definition example_env_interrupt :: env where
  "example_env_interrupt =
     example_env\<lparr>search_and_analyze := (\<lambda>k qs.
        if k = 2 then Inl (Raised ''KeyboardInterrupt'' False []) else Inr (example_hits k))\<rparr>"

definition example_state :: pipeline_state where
  "example_state =
     \<lparr>company_name = '' Acme AI '', domain = ''healthcare'', errors = None,
      web_collection = initial_web_collection default_profile\<rparr>"

text \<open>A profile that one page of the company's own site satisfies.\<close>

definition example_gate_profile :: threshold_profile where
  "example_gate_profile =
     default_profile\<lparr>min_docs := 1, min_primary := 1, min_recent := 0, avg_rel_min := 1/2,
       distinct_domains_min := 1, category_diversity_min := 1\<rparr>"

definition example_gate_docs :: "doc list" where
  "example_gate_docs = [analyzed_doc ''web_1'' ''https://acme.com/about'' ''primary'' ''company'' None]"

text \<open>The state before a second attempt whose gate asked for more and for recent documents.\<close>

definition example_retry_state :: pipeline_state where
  "example_retry_state =
     example_state\<lparr>web_collection := (initial_web_collection default_profile)
       \<lparr>attempts_current := 2,
        gate := \<lparr>passed = False, missing_slots = [''docs_count'', ''recent''], reasons = []\<rparr>\<rparr>\<rparr>"

subsection \<open>Notions for the properties\<close>

text \<open>
  A document without the seven keys that \<^verbatim>\<open>_assess_reliability\<close> rewrites (lines 424-434):
  two documents with the same core are the same hit, assessed at different times.
\<close>

definition doc_core :: "doc \<Rightarrow> doc" where
  "doc_core d =
     d\<lparr>date := None, age_days := 0, is_recent := False, reliability := [],
       reliability_score := 0, reliability_reasons := [], evidence_tier := []\<rparr>"

text \<open>The exception a pass ended with, if it did.\<close>

fun exception_of :: "control \<Rightarrow> py_exception option" where
  "exception_of (Raise e) = Some e"
| "exception_of c = None"

text \<open>The state once line 102 has counted the attempt.\<close>

definition counted :: "loop_state \<Rightarrow> loop_state" where
  "counted ls = update_wc (\<lambda>wc. wc\<lparr>attempts_current := attempts_current wc + 1\<rparr>) ls"

text \<open>The state once steps 4 and 5 have merged the new documents and re-assessed the list.\<close>

definition merged :: "doc list \<Rightarrow> string set \<Rightarrow> doc list \<Rightarrow> loop_state \<Rightarrow> loop_state" where
  "merged new_docs seen docs ls =
     set_cumulative docs (set_cumulative (cumulative_docs ls @ new_docs) ((counted ls)\<lparr>seen_urls := seen\<rparr>))"

text \<open>The normalized URLs of a document list, in order.\<close>

definition normalized_urls :: "urlparse \<Rightarrow> doc list \<Rightarrow> string list" where
  "normalized_urls up docs = map (\<lambda>d. normalize_url up (url d)) docs"

text \<open>
  What deduplication keeps true of the loop's variables: the list has no two documents with
  one normalized URL, none without a URL, and the seen-set holds the normalized URL of
  each.
\<close>

definition dedup_inv :: "urlparse \<Rightarrow> loop_state \<Rightarrow> bool" where
  "dedup_inv up ls =
     (distinct (normalized_urls up (cumulative_docs ls))
      \<and> set (normalized_urls up (cumulative_docs ls)) \<subseteq> seen_urls ls
      \<and> [] \<notin> set (map url (cumulative_docs ls)))"

text \<open>
  How the state's \<^verbatim>\<open>documents\<close> and the loop's list are related: one list object once step
  8 has run, the empty list of line 70 before.
\<close>

definition alias_inv :: "loop_state \<Rightarrow> bool" where
  "alias_inv ls = (documents (web_collection (st ls)) = (if shared ls then cumulative_docs ls else []))"

text \<open>The later list holds the earlier one's documents, in order, at its front.\<close>

definition extends :: "doc list \<Rightarrow> doc list \<Rightarrow> bool" where
  "extends earlier later = prefix (map doc_core earlier) (map doc_core later)"

text \<open>A document that carries a label and a score as \<^verbatim>\<open>_calculate_reliability\<close> gives them.\<close>

definition scored :: "doc \<Rightarrow> bool" where
  "scored d = (reliability d \<in> {''high'', ''medium''} \<and> evidence_tier d \<in> {''tier1'', ''tier2''}
               \<and> 4/10 \<le> reliability_score d \<and> reliability_score d \<le> 9/10)"

text \<open>The five slots, in the order in which lines 227-255 ask for them.\<close>

definition slots :: "string list" where
  "slots = [''primary'', ''recent'', ''docs_count'', ''reliability'', ''diversity'']"

text \<open>Between two states of the loop: the list and the state's documents have only grown.\<close>

definition grows :: "loop_state \<Rightarrow> loop_state \<Rightarrow> bool" where
  "grows a b =
     (extends (cumulative_docs a) (cumulative_docs b)
      \<and> extends (documents (web_collection (st a))) (documents (web_collection (st b))))"

section \<open>Properties\<close>

subsection \<open>Reliability scoring\<close>

lemma round_half_even_of_int: "round_half_even (of_int k) = k"
  by (simp add: round_half_even_def)

lemma round2_hundredths: "round2 (of_int k / 100) = of_int k / 100"
  by (simp add: round2_def round_half_even_of_int)

lemma raw_score_hundredths:
  "raw_score d =
     of_int (50 + (if source_type d = ''primary'' then 20 else 0)
                + (if source_category d = ''company'' then 10
                   else if source_category d = ''blog'' then - 10 else 0)
                + (if is_recent d then 10 else 0)) / 100"
  by (simp add: raw_score_def category_bonus_def Let_def)

lemma round2_raw_score: "round2 (raw_score d) = raw_score d"
  by (subst (1 2) raw_score_hundredths) (rule round2_hundredths)

lemma raw_score_bounds: "4/10 \<le> raw_score d \<and> raw_score d \<le> 9/10"
  by (simp add: raw_score_def category_bonus_def Let_def)

lemma calculate_reliability_score: "r_reliability_score (calculate_reliability d) = raw_score d"
  by (simp add: calculate_reliability_def Let_def round2_raw_score split: prod.splits)

lemma calculate_reliability_label:
  "(r_reliability (calculate_reliability d), r_evidence_tier (calculate_reliability d)) =
     (if 7/10 \<le> raw_score d then (''high'', ''tier1'')
      else if 4/10 \<le> raw_score d then (''medium'', ''tier2'')
      else (''low'', ''tier3''))"
  by (simp add: calculate_reliability_def Let_def)

text \<open>
  C2. The score that \<^verbatim>\<open>_calculate_reliability\<close> returns is the clamp to [0,1] of 0.5, plus 0.2
  for a primary source, plus the category bonus (company +0.1, news 0, blog -0.1, any
  other category 0), plus 0.1 for a recent document; it lies in [0,1]; label and tier are
  high/tier1 exactly from 0.7 up, medium/tier2 exactly in [0.4, 0.7), low/tier3 below, so
  the label is a function of the score.
\<close>

theorem calculate_reliability_score_label:
  fixes d :: doc
  defines "r \<equiv> calculate_reliability d"
  defines "score \<equiv> r_reliability_score (calculate_reliability d)"
  shows "score =
     max 0 (min 1 (1/2 + (if source_type d = ''primary'' then 2/10 else 0)
                      + (if source_category d = ''company'' then 1/10
                         else if source_category d = ''news'' then 0
                         else if source_category d = ''blog'' then - (1/10) else 0)
                      + (if is_recent d then 1/10 else 0)))
   \<and> 0 \<le> score \<and> score \<le> 1
   \<and> ((r_reliability r = ''high'' \<and> r_evidence_tier r = ''tier1'') = (7/10 \<le> score))
   \<and> ((r_reliability r = ''medium'' \<and> r_evidence_tier r = ''tier2'') = (4/10 \<le> score \<and> score < 7/10))
   \<and> ((r_reliability r = ''low'' \<and> r_evidence_tier r = ''tier3'') = (score < 4/10))
   \<and> (r_reliability r, r_evidence_tier r) =
        (if 7/10 \<le> score then (''high'', ''tier1'')
         else if 4/10 \<le> score then (''medium'', ''tier2'')
         else (''low'', ''tier3''))"
proof -
  have s: "score = raw_score d"
    by (simp only: score_def calculate_reliability_score)
  have lab: "(r_reliability r, r_evidence_tier r) =
        (if 7/10 \<le> raw_score d then (''high'', ''tier1'')
         else if 4/10 \<le> raw_score d then (''medium'', ''tier2'')
         else (''low'', ''tier3''))"
    by (simp only: r_def calculate_reliability_label)
  have rng: "0 \<le> raw_score d \<and> raw_score d \<le> 1"
    using raw_score_bounds [of d] by simp
  have f: "raw_score d =
     max 0 (min 1 (1/2 + (if source_type d = ''primary'' then 2/10 else 0)
                      + (if source_category d = ''company'' then 1/10
                         else if source_category d = ''news'' then 0
                         else if source_category d = ''blog'' then - (1/10) else 0)
                      + (if is_recent d then 1/10 else 0)))"
    by (simp add: raw_score_def category_bonus_def Let_def)
  show ?thesis
    unfolding s using lab rng f
    by (auto split: if_splits)
qed

subsection \<open>The gate\<close>

lemma distinct_domains_fold:
  "fold (\<lambda>d ds. case up (url d) of
                     None \<Rightarrow> ds
                   | Some p \<Rightarrow> (let host = lower (netloc p) in if host \<noteq> [] then insert host ds else ds))
          docs acc
   = acc \<union> {h. h \<noteq> [] \<and> (\<exists>d \<in> set docs. \<exists>p. up (url d) = Some p \<and> h = lower (netloc p))}"
  by (induction docs arbitrary: acc) (auto simp: Let_def split: option.splits)

lemma distinct_domains_set:
  "distinct_domains up docs =
     {h. h \<noteq> [] \<and> (\<exists>d \<in> set docs. \<exists>p. up (url d) = Some p \<and> h = lower (netloc p))}"
  by (simp add: distinct_domains_def distinct_domains_fold)

lemma gate_checks_missing_set:
  "set (fst (gate_checks up docs sts policy)) =
     (if int (length docs) < min_docs policy then {''docs_count''} else {}) \<union>
     (if primary_sources_count sts < min_primary policy then {''primary''} else {}) \<union>
     (if recent_documents_count sts < min_recent policy then {''recent''} else {}) \<union>
     (if average_reliability sts < avg_rel_min policy
         \<or> low_ratio_max policy < low_ratio (low_reliability_count sts) (length docs)
      then {''reliability''} else {}) \<union>
     (if int (card (distinct_domains up docs)) < distinct_domains_min policy
         \<or> int (category_div sts) < category_diversity_min policy
      then {''diversity''} else {})"
  by (auto simp: gate_checks_def Let_def)

lemma sort_remdups_facts:
  "set (sort (remdups xs)) = set xs" "distinct (sort (remdups xs))"
  "(sort (remdups xs) = []) = (xs = [])"
proof -
  show "set (sort (remdups xs)) = set xs" "distinct (sort (remdups xs))"
    by simp_all
  have "(sort (remdups xs) = []) = (set (sort (remdups xs)) = {})"
    by (simp only: set_empty)
  then show "(sort (remdups xs) = []) = (xs = [])"
    by simp
qed

lemma evaluate_gate_fst:
  "fst (evaluate_gate up docs sts policy) = (fst (gate_checks up docs sts policy) = [])"
  by (simp add: evaluate_gate_def Let_def split: prod.splits)

lemma evaluate_gate_missing:
  "fst (snd (evaluate_gate up docs sts policy)) = sort (remdups (fst (gate_checks up docs sts policy)))"
  by (simp add: evaluate_gate_def Let_def split: prod.splits)

lemma low_ratio_unfold:
  "low_ratio low_cnt (length docs) =
     (if docs = [] then 1 else of_int low_cnt / of_nat (length docs))"
  by (simp add: low_ratio_def)

text \<open>
  C1. \<^verbatim>\<open>_evaluate_gate\<close> passes exactly when all seven threshold checks hold; a slot is
  among the missing slots exactly when one of its checks fails (docs\_count, primary and
  recent have one check each, reliability and diversity two); the returned slots are
  without duplicates; and the gate passes exactly when no slot is missing.
\<close>

theorem evaluate_gate_conjunctive:
  fixes up :: urlparse and docs :: "doc list" and sts :: stats and policy :: threshold_profile
  defines "gate_passed \<equiv> fst (evaluate_gate up docs sts policy)"
  defines "missing \<equiv> fst (snd (evaluate_gate up docs sts policy))"
  defines "docs_ok \<equiv> min_docs policy \<le> int (length docs)"
  defines "primary_ok \<equiv> min_primary policy \<le> primary_sources_count sts"
  defines "recent_ok \<equiv> min_recent policy \<le> recent_documents_count sts"
  defines "avg_ok \<equiv> avg_rel_min policy \<le> average_reliability sts"
  defines "ratio_ok \<equiv>
     (if docs = [] then 1 else of_int (low_reliability_count sts) / of_nat (length docs))
       \<le> low_ratio_max policy"
  defines "hosts_ok \<equiv> distinct_domains_min policy
       \<le> int (card {h. h \<noteq> [] \<and> (\<exists>d \<in> set docs. \<exists>p. up (url d) = Some p \<and> h = lower (netloc p))})"
  defines "cats_ok \<equiv> category_diversity_min policy
       \<le> int (length (filter (\<lambda>(k, v). 0 < v) (sources_breakdown sts)))"
  shows "(gate_passed = (docs_ok \<and> primary_ok \<and> recent_ok \<and> avg_ok \<and> ratio_ok \<and> hosts_ok \<and> cats_ok))
       \<and> ((''docs_count'' \<in> set missing) = (\<not> docs_ok))
       \<and> ((''primary'' \<in> set missing) = (\<not> primary_ok))
       \<and> ((''recent'' \<in> set missing) = (\<not> recent_ok))
       \<and> ((''reliability'' \<in> set missing) = (\<not> (avg_ok \<and> ratio_ok)))
       \<and> ((''diversity'' \<in> set missing) = (\<not> (hosts_ok \<and> cats_ok)))
       \<and> set missing \<subseteq> {''docs_count'', ''primary'', ''recent'', ''reliability'', ''diversity''}
       \<and> distinct missing
       \<and> (gate_passed = (missing = []))"
proof -
  let ?m = "fst (gate_checks up docs sts policy)"
  have m: "set missing = set ?m" and d: "distinct missing"
    and e: "(missing = []) = (?m = [])"
    by (simp_all only: missing_def evaluate_gate_missing sort_remdups_facts)
  have p: "gate_passed = (set ?m = {})"
    by (simp only: gate_passed_def evaluate_gate_fst set_empty)
  have s: "set ?m =
     (if \<not> docs_ok then {''docs_count''} else {}) \<union>
     (if \<not> primary_ok then {''primary''} else {}) \<union>
     (if \<not> recent_ok then {''recent''} else {}) \<union>
     (if \<not> avg_ok \<or> \<not> ratio_ok then {''reliability''} else {}) \<union>
     (if \<not> hosts_ok \<or> \<not> cats_ok then {''diversity''} else {})"
    unfolding gate_checks_missing_set docs_ok_def primary_ok_def recent_ok_def avg_ok_def
      ratio_ok_def hosts_ok_def cats_ok_def low_ratio_unfold distinct_domains_set category_div_def
    by (simp only: not_le)
  have "gate_passed = (docs_ok \<and> primary_ok \<and> recent_ok \<and> avg_ok \<and> ratio_ok \<and> hosts_ok \<and> cats_ok)"
    unfolding p s by auto
  moreover have "(''docs_count'' \<in> set missing) = (\<not> docs_ok)"
    unfolding m s by simp
  moreover have "(''primary'' \<in> set missing) = (\<not> primary_ok)"
    unfolding m s by simp
  moreover have "(''recent'' \<in> set missing) = (\<not> recent_ok)"
    unfolding m s by simp
  moreover have "(''reliability'' \<in> set missing) = (\<not> (avg_ok \<and> ratio_ok))"
    unfolding m s by simp
  moreover have "(''diversity'' \<in> set missing) = (\<not> (hosts_ok \<and> cats_ok))"
    unfolding m s by simp
  moreover have "set missing \<subseteq> {''docs_count'', ''primary'', ''recent'', ''reliability'', ''diversity''}"
    unfolding m s by auto
  moreover have "gate_passed = (missing = [])"
    unfolding e p by (simp only: set_empty)
  ultimately show ?thesis
    using d by blast
qed

theorem evaluate_gate_conjunctive_witness:
  "fst (evaluate_gate example_urlparse example_gate_docs (calculate_statistics exact_mean example_gate_docs) example_gate_profile)
   \<and> fst (snd (evaluate_gate example_urlparse example_gate_docs (calculate_statistics exact_mean example_gate_docs) example_gate_profile)) = []"
proof -
  let ?st = "calculate_statistics exact_mean example_gate_docs"
  have c1: "min_docs example_gate_profile \<le> int (length example_gate_docs)"
    by code_simp
  have c2: "min_primary example_gate_profile \<le> primary_sources_count ?st"
    by code_simp
  have c3: "min_recent example_gate_profile \<le> recent_documents_count ?st"
    by code_simp
  have c4: "avg_rel_min example_gate_profile \<le> average_reliability ?st"
    by code_simp
  have c5: "(if example_gate_docs = [] then 1
             else of_int (low_reliability_count ?st) / of_nat (length example_gate_docs))
            \<le> low_ratio_max example_gate_profile"
    by code_simp
  have "distinct_domains_min example_gate_profile
          \<le> int (card (distinct_domains example_urlparse example_gate_docs))"
    by code_simp
  then have c6: "distinct_domains_min example_gate_profile
       \<le> int (card {h. h \<noteq> [] \<and> (\<exists>d \<in> set example_gate_docs.
              \<exists>p. example_urlparse (url d) = Some p \<and> h = lower (netloc p))})"
    by (simp only: distinct_domains_set)
  have c7: "category_diversity_min example_gate_profile
       \<le> int (length (filter (\<lambda>(k, v). 0 < v) (sources_breakdown ?st)))"
    by code_simp
  show ?thesis
    using evaluate_gate_conjunctive [of example_urlparse example_gate_docs ?st example_gate_profile]
      c1 c2 c3 c4 c5 c6 c7
    by blast
qed

text \<open>
  C5. For an empty document list the low-reliability ratio is 1 (no division takes place),
  and under every profile whose \<open>low_ratio_max\<close> is below 1, the default one with 0.3 among
  them, the gate fails with the slot reliability among the missing ones.
\<close>

theorem gate_empty_corpus:
  assumes "low_ratio_max policy < 1"
  shows "low_ratio (low_reliability_count sts) (length ([] :: doc list)) = 1
       \<and> \<not> fst (evaluate_gate up [] sts policy)
       \<and> ''reliability'' \<in> set (fst (snd (evaluate_gate up [] sts policy)))"
proof -
  have r: "low_ratio (low_reliability_count sts) (length ([] :: doc list)) = 1"
    by (simp add: low_ratio_def)
  have "''reliability'' \<in> set (fst (gate_checks up [] sts policy))"
    unfolding gate_checks_missing_set using assms r by simp
  then show ?thesis
    using r by (auto simp: evaluate_gate_fst evaluate_gate_missing)
qed

theorem gate_empty_corpus_witness:
  "low_ratio_max default_profile < 1
     \<and> low_ratio 0 0 = 1
     \<and> \<not> fst (evaluate_gate example_urlparse [] empty_stats default_profile)
     \<and> ''reliability'' \<in> set (fst (snd (evaluate_gate example_urlparse [] empty_stats default_profile)))"
proof -
  have h: "low_ratio_max default_profile < 1"
    by (simp add: default_profile_def)
  show ?thesis
    using h gate_empty_corpus [OF h, of empty_stats example_urlparse]
    by (simp add: empty_stats_def)
qed

subsection \<open>No scored document is labelled low\<close>

lemma calculate_reliability_not_low:
  "r_reliability (calculate_reliability d) \<in> {''high'', ''medium''}
   \<and> r_evidence_tier (calculate_reliability d) \<in> {''tier1'', ''tier2''}
   \<and> 4/10 \<le> r_reliability_score (calculate_reliability d)
   \<and> r_reliability_score (calculate_reliability d) \<le> 9/10"
proof -
  have "(r_reliability (calculate_reliability d), r_evidence_tier (calculate_reliability d))
          \<in> {(''high'', ''tier1''), (''medium'', ''tier2'')}"
    unfolding calculate_reliability_label using raw_score_bounds [of d] by simp
  then show ?thesis
    using raw_score_bounds [of d] by (auto simp only: calculate_reliability_score)
qed

lemma doc_update_reliability:
  "reliability (doc_update d r) = r_reliability r"
  "reliability_score (doc_update d r) = r_reliability_score r"
  "evidence_tier (doc_update d r) = r_evidence_tier r"
  by (simp_all add: doc_update_def)

lemma assess_doc_result:
  "assess_doc fromiso now d = Inr d' \<Longrightarrow> \<exists>d0. d' = doc_update d0 (calculate_reliability d0)"
  by (auto simp: assess_doc_def Let_def split: option.splits if_splits)

lemma assess_doc_scored: "assess_doc fromiso now d = Inr d' \<Longrightarrow> scored d'"
proof -
  assume "assess_doc fromiso now d = Inr d'"
  then obtain d0 where "d' = doc_update d0 (calculate_reliability d0)"
    using assess_doc_result by blast
  then show ?thesis
    using calculate_reliability_not_low [of d0] by (simp add: scored_def doc_update_reliability)
qed

lemma assess_from_scored:
  "assess_from fromiso now i ds = (ds', None) \<Longrightarrow> \<forall>d \<in> set ds'. scored d"
proof (induction ds arbitrary: i ds')
  case Nil
  then show ?case by simp
next
  case (Cons d ds)
  from Cons.prems obtain d' where a: "assess_doc fromiso (now i) d = Inr d'"
    by (cases "assess_doc fromiso (now i) d") auto
  obtain r e where r: "assess_from fromiso now (Suc i) ds = (r, e)"
    by (cases "assess_from fromiso now (Suc i) ds")
  with Cons.prems a have "ds' = d' # r" and "e = None"
    by simp_all
  with Cons.IH [of "Suc i" r] r assess_doc_scored [OF a] show ?case
    by simp
qed

lemma fold_stats_low:
  "low_reliability_count (fold stats_step ds s) =
     low_reliability_count s + int (length (filter (\<lambda>d. reliability d \<notin> {''high'', ''medium''}) ds))"
proof (induction ds arbitrary: s)
  case Nil
  show ?case by simp
next
  case (Cons d ds)
  have "low_reliability_count (stats_step d s) =
          low_reliability_count s + (if reliability d \<notin> {''high'', ''medium''} then 1 else 0)"
    by (simp add: stats_step_def Let_def)
  then show ?case
    by (simp add: Cons.IH)
qed

lemma calculate_statistics_low:
  "low_reliability_count (calculate_statistics fmean ds) =
     int (length (filter (\<lambda>d. reliability d \<notin> {''high'', ''medium''}) ds))"
  by (simp add: calculate_statistics_def Let_def fold_stats_low empty_stats_def)

text \<open>
  C10. Every score of \<^verbatim>\<open>_calculate_reliability\<close> lies in [0.4, 0.9], so its label is never
  low and its tier never tier3; a list that \<^verbatim>\<open>_assess_reliability\<close> has processed to the
  end has documents with such labels and scores only and a low-reliability count of 0; and
  for such a list the low-reliability-ratio check of the gate, under the profile of
  \<^verbatim>\<open>execute\<close> and under any other whose \<open>low_ratio_max\<close> is not negative, fails only when the
  list is empty.
\<close>

theorem scored_documents_never_low:
  assumes "assess_reliability fromiso now ds = (ds', None)"
  shows "4/10 \<le> r_reliability_score (calculate_reliability d)
       \<and> r_reliability_score (calculate_reliability d) \<le> 9/10
       \<and> r_reliability (calculate_reliability d) \<noteq> ''low''
       \<and> r_evidence_tier (calculate_reliability d) \<noteq> ''tier3''
       \<and> list_all (\<lambda>x. reliability x \<noteq> ''low'' \<and> 4/10 \<le> reliability_score x \<and> reliability_score x \<le> 9/10) ds'
       \<and> low_reliability_count (calculate_statistics fmean ds') = 0
       \<and> (low_ratio_max default_profile
             < low_ratio (low_reliability_count (calculate_statistics fmean ds')) (length ds')) = (ds' = [])
       \<and> (0 \<le> low_ratio_max policy \<longrightarrow>
            (low_ratio_max policy < low_ratio (low_reliability_count (calculate_statistics fmean ds')) (length ds'))
              = (ds' = [] \<and> low_ratio_max policy < 1))"
proof -
  have a: "\<forall>x \<in> set ds'. scored x"
    using assms(1) unfolding assess_reliability_def by (rule assess_from_scored)
  then have "filter (\<lambda>x. reliability x \<notin> {''high'', ''medium''}) ds' = []"
    by (auto simp: scored_def filter_empty_conv)
  then have z: "low_reliability_count (calculate_statistics fmean ds') = 0"
    by (simp only: calculate_statistics_low list.size of_nat_0)
  have l: "list_all (\<lambda>x. reliability x \<noteq> ''low'' \<and> 4/10 \<le> reliability_score x \<and> reliability_score x \<le> 9/10) ds'"
    using a by (auto simp: list_all_iff scored_def)
  have c: "0 \<le> low_ratio_max policy \<longrightarrow>
            (low_ratio_max policy < low_ratio (low_reliability_count (calculate_statistics fmean ds')) (length ds'))
              = (ds' = [] \<and> low_ratio_max policy < 1)"
    unfolding z by (simp add: low_ratio_def)
  have e: "(low_ratio_max default_profile
             < low_ratio (low_reliability_count (calculate_statistics fmean ds')) (length ds')) = (ds' = [])"
    unfolding z by (simp add: low_ratio_def default_profile_def)
  have "r_reliability (calculate_reliability d) \<noteq> ''low''
      \<and> r_evidence_tier (calculate_reliability d) \<noteq> ''tier3''"
    using calculate_reliability_not_low [of d] by auto
  with calculate_reliability_not_low [of d] z l c e show ?thesis
    by blast
qed

theorem scored_documents_never_low_witness:
  "assess_reliability example_fromisoformat (\<lambda>i. example_now) (example_hits 2)
     = (fst (assess_reliability example_fromisoformat (\<lambda>i. example_now) (example_hits 2)), None)
   \<and> length (fst (assess_reliability example_fromisoformat (\<lambda>i. example_now) (example_hits 2))) = 2
   \<and> 0 \<le> low_ratio_max default_profile
   \<and> low_reliability_count (calculate_statistics exact_mean
        (fst (assess_reliability example_fromisoformat (\<lambda>i. example_now) (example_hits 2)))) = 0
   \<and> \<not> low_ratio_max default_profile
         < low_ratio (low_reliability_count (calculate_statistics exact_mean
             (fst (assess_reliability example_fromisoformat (\<lambda>i. example_now) (example_hits 2))))) 2"
proof -
  let ?r = "assess_reliability example_fromisoformat (\<lambda>i. example_now) (example_hits 2)"
  have n: "snd ?r = None"
    by code_simp
  then have h1: "?r = (fst ?r, None)"
    by (simp add: prod_eq_iff)
  have h2: "0 \<le> low_ratio_max default_profile"
    by (simp add: default_profile_def)
  have len: "length (fst ?r) = 2"
    by code_simp
  then have ne: "fst ?r \<noteq> []"
    by auto
  note t = scored_documents_never_low [OF h1, where d = "hd (example_hits 2)" and policy = default_profile
      and fmean = exact_mean]
  from t have z: "low_reliability_count (calculate_statistics exact_mean (fst ?r)) = 0"
    by blast
  from t ne h2 have "\<not> low_ratio_max default_profile
         < low_ratio (low_reliability_count (calculate_statistics exact_mean (fst ?r))) (length (fst ?r))"
    by blast
  then have c: "\<not> low_ratio_max default_profile
         < low_ratio (low_reliability_count (calculate_statistics exact_mean (fst ?r))) 2"
    unfolding len .
  from h1 len h2 z c show ?thesis
    by blast
qed

subsection \<open>Dates\<close>

lemma assess_doc_unparsed:
  assumes "parse_date fromiso (date d) = None"
  shows "\<exists>d'. assess_doc fromiso now d = Inr d' \<and> age_days d' = 9999 \<and> \<not> is_recent d' \<and> date d' = None"
  using assms by (simp add: assess_doc_def Let_def doc_update_def)

lemma january_patterns:
  "strip ''January 5, 2024'' = ''January 5, 2024''"
  "rx_search ymd_here ''January 5, 2024'' = None"
  "rx_search mdy_here ''January 5, 2024'' = Some (''January'', ''5'', ''2024'')"
  "map_of (dict_update abbr_map []) (lower ''January'') = None"
  by code_simp+

lemma jan_patterns:
  "strip ''Jan 5, 2024'' = ''Jan 5, 2024''"
  "rx_search ymd_here ''Jan 5, 2024'' = None"
  "rx_search mdy_here ''Jan 5, 2024'' = Some (''Jan'', ''5'', ''2024'')"
  "map_of (dict_update abbr_map []) (lower ''Jan'') = Some 1"
  "mk_datetime (int_of_digits ''2024'') 1 (int_of_digits ''5'')
     = Some \<lparr>dt_year = 2024, dt_month = 1, dt_day = 5, dt_micros = 0, dt_aware = False\<rparr>"
  by code_simp+

lemma name_entries_None: "name_entries None = Some []"
  by (simp add: name_entries_def)

text \<open>
  C8, at a date with the month's full name. \<^verbatim>\<open>January 5, 2024\<close> is no ISO date, so
  \<^verbatim>\<open>fromisoformat\<close> raises on it; \<^verbatim>\<open>_parse_date\<close> then returns \<^verbatim>\<open>None\<close>, and
  \<^verbatim>\<open>_assess_reliability\<close> gives the document the age 9999 and \<^verbatim>\<open>is_recent = False\<close>,
  where the same date with the month abbreviated, \<^verbatim>\<open>Jan 5, 2024\<close>, is parsed.
\<close>

theorem parse_date_full_month_name:
  assumes "fromiso ''January 5, 2024'' = None" and "fromiso ''Jan 5, 2024'' = None"
  shows "parse_date fromiso (Some ''January 5, 2024'') = None
       \<and> (\<exists>d'. assess_doc fromiso now (d\<lparr>date := Some ''January 5, 2024''\<rparr>) = Inr d'
                \<and> age_days d' = 9999 \<and> \<not> is_recent d')
       \<and> parse_date fromiso (Some ''Jan 5, 2024'')
           = Some \<lparr>dt_year = 2024, dt_month = 1, dt_day = 5, dt_micros = 0, dt_aware = False\<rparr>"
proof -
  have full: "parse_date fromiso (Some ''January 5, 2024'') = None"
    using assms(1) by (simp add: parse_date_def Let_def january_patterns name_entries_None del: rx_search.simps)
  have abbr: "parse_date fromiso (Some ''Jan 5, 2024'')
           = Some \<lparr>dt_year = 2024, dt_month = 1, dt_day = 5, dt_micros = 0, dt_aware = False\<rparr>"
    using assms(2) by (simp add: parse_date_def Let_def jan_patterns name_entries_None del: rx_search.simps)
  have "parse_date fromiso (date (d\<lparr>date := Some ''January 5, 2024''\<rparr>)) = None"
    using full by simp
  from assess_doc_unparsed [OF this, of now] full abbr show ?thesis
    by blast
qed

theorem parse_date_full_month_name_witness:
  "example_fromisoformat ''January 5, 2024'' = None
   \<and> example_fromisoformat ''Jan 5, 2024'' = None
   \<and> parse_date example_fromisoformat (Some ''January 5, 2024'') = None
   \<and> parse_date example_fromisoformat (Some ''Jan 5, 2024'')
       = Some \<lparr>dt_year = 2024, dt_month = 1, dt_day = 5, dt_micros = 0, dt_aware = False\<rparr>"
proof -
  have h1: "example_fromisoformat ''January 5, 2024'' = None"
    by code_simp
  have h2: "example_fromisoformat ''Jan 5, 2024'' = None"
    by code_simp
  from parse_date_full_month_name [OF h1 h2] h1 h2 show ?thesis
    by blast
qed

subsection \<open>Query planning\<close>

lemma targeted_queries_by_slot:
  "targeted_queries cn dm missing cutoff =
     concat (map (\<lambda>slot. if slot \<in> set missing then targeted_queries cn dm [slot] cutoff else []) slots)"
  by (simp add: targeted_queries_def slots_def Let_def)

lemma targeted_queries_slot_length:
  "map (\<lambda>slot. length (targeted_queries cn dm [slot] cutoff)) slots = [3, 2, 3, 3, 3]"
  by (simp add: targeted_queries_def slots_def Let_def)

text \<open>
  C9, as the code has it. The query list is a function of the inputs and of the clock, which
  line 225 reads for the cutoff date; the clock matters through that date only. Attempt 1
  returns the 10 baseline queries; any other attempt returns them when no slot is missing,
  and otherwise (the cutoff date \<open>cutoff\<close> being computed) the baseline followed, for each
  missing slot in the order primary, recent, docs\_count, reliability, diversity, by the 2
  or 3 queries of that slot.
\<close>

theorem build_queries_plan:
  fixes now :: datetime and cn dm :: string and state :: pipeline_state
  defines "k \<equiv> attempts_current (web_collection state)"
  defines "missing \<equiv> missing_slots (gate (web_collection state))"
  defines "days \<equiv> recent_window_days (profile (web_collection state))"
  shows "length (base_queries cn dm) = 10
       \<and> (k = 1 \<or> missing = [] \<longrightarrow> build_queries now cn dm state = Inr (base_queries cn dm))
       \<and> (k \<noteq> 1 \<and> missing \<noteq> [] \<and> recent_cut_of now days = Inr cutoff \<longrightarrow>
            build_queries now cn dm state =
              Inr (base_queries cn dm @
                   concat (map (\<lambda>slot. if slot \<in> set missing then targeted_queries cn dm [slot] cutoff else [])
                             [''primary'', ''recent'', ''docs_count'', ''reliability'', ''diversity''])))
       \<and> map (\<lambda>slot. length (targeted_queries cn dm [slot] cutoff))
            [''primary'', ''recent'', ''docs_count'', ''reliability'', ''diversity''] = [3, 2, 3, 3, 3]
       \<and> (recent_cut_of now' days = recent_cut_of now days \<longrightarrow>
            build_queries now' cn dm state = build_queries now cn dm state)"
proof -
  have "length (base_queries cn dm) = 10"
    by (simp add: base_queries_def)
  moreover have "k = 1 \<or> missing = [] \<longrightarrow> build_queries now cn dm state = Inr (base_queries cn dm)"
    by (auto simp: build_queries_def Let_def k_def missing_def)
  moreover have "k \<noteq> 1 \<and> missing \<noteq> [] \<and> recent_cut_of now days = Inr cutoff \<longrightarrow>
            build_queries now cn dm state =
              Inr (base_queries cn dm @
                   concat (map (\<lambda>slot. if slot \<in> set missing then targeted_queries cn dm [slot] cutoff else [])
                             [''primary'', ''recent'', ''docs_count'', ''reliability'', ''diversity'']))"
    using targeted_queries_by_slot [of cn dm missing cutoff]
    by (auto simp: build_queries_def Let_def k_def missing_def days_def slots_def)
  moreover have "map (\<lambda>slot. length (targeted_queries cn dm [slot] cutoff))
            [''primary'', ''recent'', ''docs_count'', ''reliability'', ''diversity''] = [3, 2, 3, 3, 3]"
    using targeted_queries_slot_length [of cn dm cutoff] by (simp only: slots_def)
  moreover have "recent_cut_of now' days = recent_cut_of now days \<longrightarrow>
            build_queries now' cn dm state = build_queries now cn dm state"
    by (simp add: build_queries_def Let_def days_def)
  ultimately show ?thesis
    by blast
qed

theorem build_queries_plan_witness:
  "build_queries example_now ''Acme'' ''ai'' (example_state\<lparr>web_collection :=
       (initial_web_collection default_profile)\<lparr>attempts_current := 1\<rparr>\<rparr>) = Inr (base_queries ''Acme'' ''ai'')
   \<and> recent_cut_of example_now 180 = Inr ''2026-05-09''
   \<and> build_queries example_now ''Acme'' ''ai'' example_retry_state =
       Inr (base_queries ''Acme'' ''ai'' @ targeted_queries ''Acme'' ''ai'' [''recent''] ''2026-05-09''
              @ targeted_queries ''Acme'' ''ai'' [''docs_count''] ''2026-05-09'')
   \<and> build_queries (example_now\<lparr>dt_micros := 1\<rparr>) ''Acme'' ''ai'' example_retry_state
       = build_queries example_now ''Acme'' ''ai'' example_retry_state"
proof -
  let ?s1 = "example_state\<lparr>web_collection := (initial_web_collection default_profile)\<lparr>attempts_current := 1\<rparr>\<rparr>"
  have k1: "attempts_current (web_collection ?s1) = 1"
    by simp
  have a: "build_queries example_now ''Acme'' ''ai'' ?s1 = Inr (base_queries ''Acme'' ''ai'')"
    using build_queries_plan [where cn = "''Acme''" and dm = "''ai''" and state = ?s1 and now = example_now] k1
    by blast
  have k2: "attempts_current (web_collection example_retry_state) \<noteq> 1"
    and m: "missing_slots (gate (web_collection example_retry_state)) = [''docs_count'', ''recent'']"
    and d: "recent_window_days (profile (web_collection example_retry_state)) = 180"
    by (simp_all add: example_retry_state_def initial_web_collection_def default_profile_def)
  have c: "recent_cut_of example_now 180 = Inr ''2026-05-09''"
    by code_simp
  have c': "recent_cut_of (example_now\<lparr>dt_micros := 1\<rparr>) 180 = recent_cut_of example_now 180"
    by code_simp
  note t = build_queries_plan [where cn = "''Acme''" and dm = "''ai''" and state = example_retry_state
      and now = example_now and cutoff = "''2026-05-09''" and now' = "example_now\<lparr>dt_micros := 1\<rparr>",
      unfolded m d]
  have b: "build_queries example_now ''Acme'' ''ai'' example_retry_state =
       Inr (base_queries ''Acme'' ''ai'' @ targeted_queries ''Acme'' ''ai'' [''recent''] ''2026-05-09''
              @ targeted_queries ''Acme'' ''ai'' [''docs_count''] ''2026-05-09'')"
    using t k2 c by simp
  have e: "build_queries (example_now\<lparr>dt_micros := 1\<rparr>) ''Acme'' ''ai'' example_retry_state
       = build_queries example_now ''Acme'' ''ai'' example_retry_state"
    using t c' by blast
  from a c b e show ?thesis
    by blast
qed

text \<open>
  C9, as the claim states it, fails: the same company, domain and state give different
  query lists on 5 November and on 5 December 2026.
\<close>

theorem build_queries_clock_counterexample:
  "build_queries example_now ''Acme'' ''ai'' example_retry_state
     \<noteq> build_queries (example_now\<lparr>dt_month := 12\<rparr>) ''Acme'' ''ai'' example_retry_state"
  by code_simp

subsection \<open>Re-assessment keeps what it does not write\<close>

lemma doc_update_core: "doc_core (doc_update d r) = doc_core d"
  by (simp add: doc_core_def doc_update_def)

lemma doc_core_assessed: "doc_core (d\<lparr>age_days := a, is_recent := b, date := c\<rparr>) = doc_core d"
  by (simp add: doc_core_def)

lemma assess_doc_core: "assess_doc fromiso now d = Inr d' \<Longrightarrow> doc_core d' = doc_core d"
  by (auto simp: assess_doc_def Let_def doc_update_core doc_core_assessed split: option.splits if_splits)

lemma doc_core_url: "doc_core a = doc_core b \<Longrightarrow> url a = url b"
  by (metis doc.select_convs(2) doc.surjective doc.update_convs(11-17) doc_core_def)

lemma assess_from_core:
  "map doc_core (fst (assess_from fromiso now i ds)) = map doc_core ds"
proof (induction ds arbitrary: i)
  case Nil
  show ?case by simp
next
  case (Cons d ds)
  show ?case
  proof (cases "assess_doc fromiso (now i) d")
    case (Inl e)
    then show ?thesis by simp
  next
    case (Inr d')
    then have "doc_core d' = doc_core d"
      by (rule assess_doc_core)
    with Inr Cons.IH [of "Suc i"] show ?thesis
      by (simp add: split_beta)
  qed
qed

lemma assess_reliability_core:
  "map doc_core (fst (assess_reliability fromiso now ds)) = map doc_core ds"
  by (simp add: assess_reliability_def assess_from_core)

lemma map_core_url: "map doc_core xs = map doc_core ys \<Longrightarrow> map url xs = map url ys"
proof (induction xs arbitrary: ys)
  case Nil
  then show ?case by simp
next
  case (Cons x xs)
  then obtain y ys' where ys: "ys = y # ys'" and c: "doc_core x = doc_core y"
    and r: "map doc_core xs = map doc_core ys'"
    by (cases ys) auto
  from c have "url x = url y" by (rule doc_core_url)
  with Cons.IH [OF r] ys show ?case by simp
qed

subsection \<open>Deduplication\<close>

lemma dedup_facts:
  "dedup up hits seen = (new_docs, seen') \<Longrightarrow>
     distinct (map (\<lambda>d. normalize_url up (url d)) new_docs)
     \<and> (\<forall>d \<in> set new_docs. url d \<noteq> [] \<and> normalize_url up (url d) \<notin> seen)
     \<and> seen' = seen \<union> (\<lambda>d. normalize_url up (url d)) ` set new_docs
     \<and> set new_docs \<subseteq> set hits"
proof (induction hits arbitrary: seen new_docs seen')
  case Nil
  then show ?case by simp
next
  case (Cons h hits)
  show ?case
  proof (cases "url h = [] \<or> normalize_url up (url h) \<in> seen")
    case True
    with Cons.prems have "dedup up hits seen = (new_docs, seen')"
      by (auto simp: Let_def split: if_splits)
    from Cons.IH [OF this] show ?thesis by auto
  next
    case False
    obtain nd s' where r: "dedup up hits (insert (normalize_url up (url h)) seen) = (nd, s')"
      by (cases "dedup up hits (insert (normalize_url up (url h)) seen)")
    with False Cons.prems have n: "new_docs = h # nd" and s: "seen' = s'"
      by (auto simp: Let_def split: if_splits)
    from Cons.IH [OF r] False show ?thesis
      unfolding n s by auto
  qed
qed

subsection \<open>What one pass changes\<close>

lemma update_wc_proj [simp]:
  "cumulative_docs (update_wc f ls) = cumulative_docs ls"
  "seen_urls (update_wc f ls) = seen_urls ls"
  "shared (update_wc f ls) = shared ls"
  "web_collection (st (update_wc f ls)) = f (web_collection (st ls))"
  "errors (st (update_wc f ls)) = errors (st ls)"
  by (simp_all add: update_wc_def)

lemma set_cumulative_proj [simp]:
  "cumulative_docs (set_cumulative docs ls) = docs"
  "seen_urls (set_cumulative docs ls) = seen_urls ls"
  "shared (set_cumulative docs ls) = shared ls"
  "documents (web_collection (st (set_cumulative docs ls)))
     = (if shared ls then docs else documents (web_collection (st ls)))"
  "errors (st (set_cumulative docs ls)) = errors (st ls)"
  "status (web_collection (st (set_cumulative docs ls))) = status (web_collection (st ls))"
  "gate (web_collection (st (set_cumulative docs ls))) = gate (web_collection (st ls))"
  "doc_count (web_collection (st (set_cumulative docs ls))) = doc_count (web_collection (st ls))"
  "attempts_current (web_collection (st (set_cumulative docs ls))) = attempts_current (web_collection (st ls))"
  "attempts_max (web_collection (st (set_cumulative docs ls))) = attempts_max (web_collection (st ls))"
  by (simp_all add: set_cumulative_def)

lemma spread_stats_proj [simp]:
  "documents (spread_stats s wc) = documents wc"
  "status (spread_stats s wc) = status wc"
  "gate (spread_stats s wc) = gate wc"
  "attempts_current (spread_stats s wc) = attempts_current wc"
  "attempts_max (spread_stats s wc) = attempts_max wc"
  "low_reliability_count (spread_stats s wc) = low_reliability_count s"
  by (simp_all add: spread_stats_def)

text \<open>Steps 6 to 10: the list, the seen-set and the counters stay; the state gets the list.\<close>

lemma gate_and_record_proj:
  fixes ls :: loop_state and env :: env and policy :: threshold_profile and k :: int
    and qs :: "string list" and n :: nat
  defines "r \<equiv> gate_and_record env policy k qs n ls"
  defines "g \<equiv> evaluate_gate (urlparse env) (cumulative_docs ls) (calculate_statistics (float_mean env) (cumulative_docs ls)) policy"
  shows "cumulative_docs (fst r) = cumulative_docs ls"
    and "seen_urls (fst r) = seen_urls ls"
    and "shared (fst r)"
    and "errors (st (fst r)) = errors (st ls)"
    and "documents (web_collection (st (fst r))) = cumulative_docs ls"
    and "doc_count (web_collection (st (fst r))) = length (cumulative_docs ls)"
    and "passed (gate (web_collection (st (fst r)))) = fst g"
    and "missing_slots (gate (web_collection (st (fst r)))) = fst (snd g)"
    and "status (web_collection (st (fst r))) =
           (if fst g then ''completed''
            else if attempts_max (web_collection (st ls)) \<le> k then ''partial''
            else ''insufficient'')"
    and "snd r = (if fst g \<or> attempts_max (web_collection (st ls)) \<le> k then Break else Continue)"
    and "error (web_collection (st (fst r))) = None"
  by (simp_all add: r_def g_def gate_and_record_def Let_def split_beta)

text \<open>A pass either raises before it has any hits, or merges, re-assesses and then raises or gates.\<close>

lemma attempt_unfold:
  "(\<exists>e. attempt env policy cn dm ls = (counted ls, Raise e))
   \<or> (\<exists>queries hits new_docs seen docs r.
         search_and_analyze env (attempts_current (web_collection (st ls)) + 1) queries = Inr hits
       \<and> dedup (urlparse env) hits (seen_urls ls) = (new_docs, seen)
       \<and> assess_reliability (fromisoformat env)
            (utcnow_assess env (attempts_current (web_collection (st ls)) + 1))
            (cumulative_docs ls @ new_docs) = (docs, r)
       \<and> attempt env policy cn dm ls =
            (case r of
               Some e \<Rightarrow> (merged new_docs seen docs ls, Raise e)
             | None \<Rightarrow> gate_and_record env policy (attempts_current (web_collection (st ls)) + 1)
                         queries (length new_docs) (merged new_docs seen docs ls)))"
proof -
  let ?k = "attempts_current (web_collection (st ls)) + 1"
  show ?thesis
  proof (cases "build_queries (utcnow_plan env ?k) cn dm (st (counted ls))")
    case (Inl e)
    then have "attempt env policy cn dm ls = (counted ls, Raise e)"
      by (simp add: attempt_def counted_def Let_def)
    then show ?thesis by blast
  next
    case q: (Inr queries)
    show ?thesis
    proof (cases "search_and_analyze env ?k queries")
      case (Inl e)
      with q have "attempt env policy cn dm ls = (counted ls, Raise e)"
        by (simp add: attempt_def counted_def Let_def)
      then show ?thesis by blast
    next
      case h: (Inr hits)
      obtain new_docs seen where d: "dedup (urlparse env) hits (seen_urls ls) = (new_docs, seen)"
        by (cases "dedup (urlparse env) hits (seen_urls ls)")
      obtain docs r where a: "assess_reliability (fromisoformat env) (utcnow_assess env ?k)
          (cumulative_docs ls @ new_docs) = (docs, r)"
        by (cases "assess_reliability (fromisoformat env) (utcnow_assess env ?k) (cumulative_docs ls @ new_docs)")
      have "attempt env policy cn dm ls =
            (case r of
               Some e \<Rightarrow> (merged new_docs seen docs ls, Raise e)
             | None \<Rightarrow> gate_and_record env policy ?k queries (length new_docs) (merged new_docs seen docs ls))"
        using q h d a by (cases r) (simp_all add: attempt_def counted_def merged_def Let_def)
      with h d a show ?thesis by blast
    qed
  qed
qed

lemma counted_proj [simp]:
  "cumulative_docs (counted ls) = cumulative_docs ls"
  "seen_urls (counted ls) = seen_urls ls"
  "shared (counted ls) = shared ls"
  "errors (st (counted ls)) = errors (st ls)"
  "documents (web_collection (st (counted ls))) = documents (web_collection (st ls))"
  "status (web_collection (st (counted ls))) = status (web_collection (st ls))"
  "gate (web_collection (st (counted ls))) = gate (web_collection (st ls))"
  "attempts_current (web_collection (st (counted ls))) = attempts_current (web_collection (st ls)) + 1"
  "attempts_max (web_collection (st (counted ls))) = attempts_max (web_collection (st ls))"
  by (simp_all add: counted_def)

lemma merged_proj [simp]:
  "cumulative_docs (merged new_docs seen docs ls) = docs"
  "seen_urls (merged new_docs seen docs ls) = seen"
  "shared (merged new_docs seen docs ls) = shared ls"
  "errors (st (merged new_docs seen docs ls)) = errors (st ls)"
  "documents (web_collection (st (merged new_docs seen docs ls)))
     = (if shared ls then docs else documents (web_collection (st ls)))"
  "status (web_collection (st (merged new_docs seen docs ls))) = status (web_collection (st ls))"
  "gate (web_collection (st (merged new_docs seen docs ls))) = gate (web_collection (st ls))"
  "attempts_current (web_collection (st (merged new_docs seen docs ls)))
     = attempts_current (web_collection (st ls)) + 1"
  "attempts_max (web_collection (st (merged new_docs seen docs ls))) = attempts_max (web_collection (st ls))"
  by (simp_all add: merged_def counted_def set_cumulative_def update_wc_def)

text \<open>
  The effect of one pass on the loop's variables: some list of new documents, none without
  a URL, with normalized URLs that are pairwise different and unseen so far, is appended to
  the list (whose documents are re-assessed) and its normalized URLs join the seen-set. A
  pass that raises before step 4 appends nothing.
\<close>

lemma attempt_effect:
  fixes env :: env and ls :: loop_state and policy :: threshold_profile and cn dm :: string
  defines "after \<equiv> fst (attempt env policy cn dm ls)"
  shows "\<exists>new_docs.
           map doc_core (cumulative_docs after) = map doc_core (cumulative_docs ls @ new_docs)
         \<and> seen_urls after = seen_urls ls \<union> set (normalized_urls (urlparse env) new_docs)
         \<and> distinct (normalized_urls (urlparse env) new_docs)
         \<and> set (normalized_urls (urlparse env) new_docs) \<inter> seen_urls ls = {}
         \<and> [] \<notin> set (map url new_docs)"
proof -
  consider (early) e where "attempt env policy cn dm ls = (counted ls, Raise e)"
    | (late) queries hits new_docs seen docs r where
        "dedup (urlparse env) hits (seen_urls ls) = (new_docs, seen)"
        "assess_reliability (fromisoformat env)
            (utcnow_assess env (attempts_current (web_collection (st ls)) + 1))
            (cumulative_docs ls @ new_docs) = (docs, r)"
        "attempt env policy cn dm ls =
            (case r of
               Some e \<Rightarrow> (merged new_docs seen docs ls, Raise e)
             | None \<Rightarrow> gate_and_record env policy (attempts_current (web_collection (st ls)) + 1)
                         queries (length new_docs) (merged new_docs seen docs ls))"
    using attempt_unfold [of env policy cn dm ls] by blast
  then show ?thesis
  proof cases
    case early
    then have "cumulative_docs after = cumulative_docs ls" "seen_urls after = seen_urls ls"
      by (simp_all add: after_def)
    then have "map doc_core (cumulative_docs after) = map doc_core (cumulative_docs ls @ [])
         \<and> seen_urls after = seen_urls ls \<union> set (normalized_urls (urlparse env) [])
         \<and> distinct (normalized_urls (urlparse env) [])
         \<and> set (normalized_urls (urlparse env) []) \<inter> seen_urls ls = {}
         \<and> [] \<notin> set (map url ([] :: doc list))"
      by (simp add: normalized_urls_def)
    then show ?thesis by blast
  next
    case late
    have c: "cumulative_docs after = docs" and s: "seen_urls after = seen"
      unfolding after_def late(3) by (cases r; simp add: gate_and_record_proj)+
    have "docs = fst (assess_reliability (fromisoformat env)
            (utcnow_assess env (attempts_current (web_collection (st ls)) + 1))
            (cumulative_docs ls @ new_docs))"
      by (simp add: late(2))
    then have m: "map doc_core docs = map doc_core (cumulative_docs ls @ new_docs)"
      by (simp only: assess_reliability_core)
    from dedup_facts [OF late(1)] have
      "map doc_core (cumulative_docs after) = map doc_core (cumulative_docs ls @ new_docs)
         \<and> seen_urls after = seen_urls ls \<union> set (normalized_urls (urlparse env) new_docs)
         \<and> distinct (normalized_urls (urlparse env) new_docs)
         \<and> set (normalized_urls (urlparse env) new_docs) \<inter> seen_urls ls = {}
         \<and> [] \<notin> set (map url new_docs)"
      unfolding c s normalized_urls_def using m by auto
    then show ?thesis by blast
  qed
qed

lemma normalized_urls_core:
  "map doc_core xs = map doc_core ys \<Longrightarrow> normalized_urls up xs = normalized_urls up ys"
proof -
  assume "map doc_core xs = map doc_core ys"
  then have "map url xs = map url ys"
    by (rule map_core_url)
  then have "map (\<lambda>u. normalize_url up u) (map url xs) = map (\<lambda>u. normalize_url up u) (map url ys)"
    by simp
  then show ?thesis
    by (simp add: normalized_urls_def comp_def)
qed

lemma attempt_dedup_inv:
  assumes "dedup_inv (urlparse env) ls"
  shows "dedup_inv (urlparse env) (fst (attempt env policy cn dm ls))"
proof -
  let ?up = "urlparse env" and ?after = "fst (attempt env policy cn dm ls)"
  obtain new_docs where
    m: "map doc_core (cumulative_docs ?after) = map doc_core (cumulative_docs ls @ new_docs)"
    and s: "seen_urls ?after = seen_urls ls \<union> set (normalized_urls ?up new_docs)"
    and d: "distinct (normalized_urls ?up new_docs)"
    and i: "set (normalized_urls ?up new_docs) \<inter> seen_urls ls = {}"
    and e: "[] \<notin> set (map url new_docs)"
    using attempt_effect [of env policy cn dm ls] by blast
  have n: "normalized_urls ?up (cumulative_docs ?after)
             = normalized_urls ?up (cumulative_docs ls) @ normalized_urls ?up new_docs"
    using normalized_urls_core [OF m] by (simp add: normalized_urls_def)
  have u: "map url (cumulative_docs ?after) = map url (cumulative_docs ls) @ map url new_docs"
    using map_core_url [OF m] by simp
  from assms d i e show ?thesis
    unfolding dedup_inv_def n u s by auto
qed

lemma attempt_alias_inv:
  assumes "alias_inv ls"
  shows "alias_inv (fst (attempt env policy cn dm ls))"
proof -
  consider (early) e where "attempt env policy cn dm ls = (counted ls, Raise e)"
    | (late) queries new_docs seen docs r where
        "attempt env policy cn dm ls =
            (case r of
               Some e \<Rightarrow> (merged new_docs seen docs ls, Raise e)
             | None \<Rightarrow> gate_and_record env policy (attempts_current (web_collection (st ls)) + 1)
                         queries (length new_docs) (merged new_docs seen docs ls))"
    using attempt_unfold [of env policy cn dm ls] by blast
  then show ?thesis
  proof cases
    case early
    with assms show ?thesis by (simp add: alias_inv_def)
  next
    case late
    with assms show ?thesis
      by (cases r) (simp_all add: alias_inv_def gate_and_record_proj)
  qed
qed

lemma attempt_extends:
  "extends (cumulative_docs ls) (cumulative_docs (fst (attempt env policy cn dm ls)))"
  using attempt_effect [of env policy cn dm ls] by (auto simp: extends_def)

lemma attempt_extends_documents:
  assumes "alias_inv ls"
  shows "extends (documents (web_collection (st ls)))
           (documents (web_collection (st (fst (attempt env policy cn dm ls)))))"
proof -
  have a: "alias_inv (fst (attempt env policy cn dm ls))"
    using assms by (rule attempt_alias_inv)
  consider (early) e where "attempt env policy cn dm ls = (counted ls, Raise e)"
    | (late) queries new_docs seen docs r where
        "attempt env policy cn dm ls =
            (case r of
               Some e \<Rightarrow> (merged new_docs seen docs ls, Raise e)
             | None \<Rightarrow> gate_and_record env policy (attempts_current (web_collection (st ls)) + 1)
                         queries (length new_docs) (merged new_docs seen docs ls))"
    using attempt_unfold [of env policy cn dm ls] by blast
  then show ?thesis
  proof cases
    case early
    then show ?thesis by (simp add: extends_def)
  next
    case late
    show ?thesis
    proof (cases "shared ls")
      case True
      then have "shared (fst (attempt env policy cn dm ls))"
        unfolding late by (cases r) (simp_all add: gate_and_record_proj)
      with a assms True attempt_extends [of ls env policy cn dm] show ?thesis
        by (simp add: alias_inv_def)
    next
      case False
      with assms show ?thesis
        by (simp add: alias_inv_def extends_def)
    qed
  qed
qed

subsection \<open>The loop as a sequence of passes\<close>

declare run_loop.simps [simp del] loop_trace.simps [simp del]

lemma loop_trace_unfold:
  "loop_trace env policy cn dm ls =
     (if attempts_current (web_collection (st ls)) < attempts_max (web_collection (st ls))
      then attempt env policy cn dm ls #
           (if snd (attempt env policy cn dm ls) = Continue
            then loop_trace env policy cn dm (fst (attempt env policy cn dm ls))
            else [])
      else [])"
  by (subst loop_trace.simps) (auto split: prod.splits control.splits)

lemma run_loop_unfold:
  "run_loop env policy cn dm ls =
     (if attempts_current (web_collection (st ls)) < attempts_max (web_collection (st ls))
      then (if snd (attempt env policy cn dm ls) = Continue
            then run_loop env policy cn dm (fst (attempt env policy cn dm ls))
            else (fst (attempt env policy cn dm ls), exception_of (snd (attempt env policy cn dm ls))))
      else (ls, None))"
  by (subst run_loop.simps) (auto split: prod.splits control.splits)

lemma attempt_measure:
  assumes "attempts_current (web_collection (st ls)) < attempts_max (web_collection (st ls))"
  shows "nat (attempts_max (web_collection (st (fst (attempt env policy cn dm ls))))
              - attempts_current (web_collection (st (fst (attempt env policy cn dm ls)))))
         < nat (attempts_max (web_collection (st ls)) - attempts_current (web_collection (st ls)))"
  using assms attempt_attempts [of env policy cn dm ls] by simp

text \<open>What every pass keeps holds after every pass of the loop.\<close>

lemma loop_trace_invariant:
  assumes step: "\<And>s. P s \<Longrightarrow> P (fst (attempt env policy cn dm s))"
  shows "P ls \<Longrightarrow> \<forall>x \<in> set (loop_trace env policy cn dm ls). P (fst x)"
proof (induction "nat (attempts_max (web_collection (st ls)) - attempts_current (web_collection (st ls)))"
    arbitrary: ls rule: less_induct)
  case less
  let ?a = "attempt env policy cn dm ls"
  show ?case
  proof (cases "attempts_current (web_collection (st ls)) < attempts_max (web_collection (st ls))")
    case False
    then show ?thesis
      by (subst loop_trace_unfold) simp
  next
    case True
    have p: "P (fst ?a)"
      using less.prems by (rule step)
    have "\<forall>x \<in> set (loop_trace env policy cn dm (fst ?a)). P (fst x)"
      using attempt_measure [OF True] p by (rule less.hyps)
    with p True show ?thesis
      by (subst loop_trace_unfold) simp
  qed
qed

text \<open>
  A transitive relation that every pass establishes between the state before and after it
  holds between any earlier and any later state of the loop.
\<close>

lemma loop_trace_chain:
  assumes inv: "\<And>s. I s \<Longrightarrow> I (fst (attempt env policy cn dm s))"
    and rel: "\<And>s. I s \<Longrightarrow> R s (fst (attempt env policy cn dm s))"
    and trans: "\<And>a b c. R a b \<Longrightarrow> R b c \<Longrightarrow> R a c"
  shows "I ls \<Longrightarrow>
     sorted_wrt (\<lambda>a b. R (fst a) (fst b)) (loop_trace env policy cn dm ls)
     \<and> (\<forall>x \<in> set (loop_trace env policy cn dm ls). R ls (fst x))"
proof (induction "nat (attempts_max (web_collection (st ls)) - attempts_current (web_collection (st ls)))"
    arbitrary: ls rule: less_induct)
  case less
  let ?a = "attempt env policy cn dm ls"
  show ?case
  proof (cases "attempts_current (web_collection (st ls)) < attempts_max (web_collection (st ls))")
    case False
    then show ?thesis
      by (subst (1 2) loop_trace_unfold) simp
  next
    case True
    have i: "I (fst ?a)" and r: "R ls (fst ?a)"
      using less.prems by (rule inv, rule rel)
    have h: "sorted_wrt (\<lambda>a b. R (fst a) (fst b)) (loop_trace env policy cn dm (fst ?a))
        \<and> (\<forall>x \<in> set (loop_trace env policy cn dm (fst ?a)). R (fst ?a) (fst x))"
      using attempt_measure [OF True] i by (rule less.hyps)
    then have "\<forall>x \<in> set (loop_trace env policy cn dm (fst ?a)). R ls (fst x)"
      using r trans by blast
    with h r True show ?thesis
      by (subst (1 2) loop_trace_unfold) simp
  qed
qed

text \<open>The loop ends in the state of its last pass, with that pass's exception if it raised.\<close>

lemma run_loop_trace:
  "run_loop env policy cn dm ls =
     (if loop_trace env policy cn dm ls = [] then (ls, None)
      else (fst (last (loop_trace env policy cn dm ls)),
            exception_of (snd (last (loop_trace env policy cn dm ls)))))"
proof (induction "nat (attempts_max (web_collection (st ls)) - attempts_current (web_collection (st ls)))"
    arbitrary: ls rule: less_induct)
  case less
  let ?a = "attempt env policy cn dm ls"
  show ?case
  proof (cases "attempts_current (web_collection (st ls)) < attempts_max (web_collection (st ls))")
    case False
    then show ?thesis
      by (subst run_loop_unfold, subst (1 2 3) loop_trace_unfold) simp
  next
    case True
    show ?thesis
    proof (cases "snd ?a = Continue")
      case c: False
      with True show ?thesis
        by (subst run_loop_unfold, subst (1 2 3) loop_trace_unfold) simp
    next
      case c: True
      have "run_loop env policy cn dm (fst ?a) =
          (if loop_trace env policy cn dm (fst ?a) = [] then (fst ?a, None)
           else (fst (last (loop_trace env policy cn dm (fst ?a))),
                 exception_of (snd (last (loop_trace env policy cn dm (fst ?a))))))"
        using attempt_measure [OF True] by (rule less.hyps)
      with True c show ?thesis
        by (subst run_loop_unfold, subst (1 2 3) loop_trace_unfold) simp
    qed
  qed
qed

text \<open>Only the last pass can end otherwise than by going on: a raise or a break ends the loop.\<close>

lemma loop_trace_butlast:
  "\<forall>x \<in> set (butlast (loop_trace env policy cn dm ls)). snd x = Continue"
proof (induction "nat (attempts_max (web_collection (st ls)) - attempts_current (web_collection (st ls)))"
    arbitrary: ls rule: less_induct)
  case less
  let ?a = "attempt env policy cn dm ls"
  show ?case
  proof (cases "attempts_current (web_collection (st ls)) < attempts_max (web_collection (st ls))
                \<and> snd ?a = Continue")
    case False
    then show ?thesis
      by (subst loop_trace_unfold) auto
  next
    case True
    then have "\<forall>x \<in> set (butlast (loop_trace env policy cn dm (fst ?a))). snd x = Continue"
      using attempt_measure [of ls env policy cn dm] by (intro less.hyps) simp
    with True show ?thesis
      by (subst loop_trace_unfold) auto
  qed
qed

text \<open>The passes are numbered from the counter's start, one by one.\<close>

lemma loop_trace_numbers:
  "i < length (loop_trace env policy cn dm ls) \<Longrightarrow>
     attempts_current (web_collection (st (fst (loop_trace env policy cn dm ls ! i))))
       = attempts_current (web_collection (st ls)) + int i + 1"
proof (induction "nat (attempts_max (web_collection (st ls)) - attempts_current (web_collection (st ls)))"
    arbitrary: ls i rule: less_induct)
  case less
  let ?a = "attempt env policy cn dm ls"
  from less.prems have lt: "attempts_current (web_collection (st ls)) < attempts_max (web_collection (st ls))"
    by (subst (asm) loop_trace_unfold) (simp split: if_splits)
  show ?case
  proof (cases i)
    case 0
    with lt show ?thesis
      by (subst loop_trace_unfold) (simp add: attempt_attempts)
  next
    case (Suc j)
    with less.prems lt have c: "snd ?a = Continue" and j: "j < length (loop_trace env policy cn dm (fst ?a))"
      by (subst (asm) loop_trace_unfold, simp split: if_splits)+
    have "attempts_current (web_collection (st (fst (loop_trace env policy cn dm (fst ?a) ! j))))
       = attempts_current (web_collection (st (fst ?a))) + int j + 1"
      using attempt_measure [OF lt] j by (rule less.hyps)
    with lt c Suc show ?thesis
      by (subst loop_trace_unfold) (simp add: attempt_attempts)
  qed
qed

subsection \<open>The run from its start\<close>

lemma start_state_proj:
  "cumulative_docs (start_state tp state0) = []"
  "seen_urls (start_state tp state0) = {}"
  "\<not> shared (start_state tp state0)"
  "documents (web_collection (st (start_state tp state0))) = []"
  "attempts_current (web_collection (st (start_state tp state0))) = 0"
  "attempts_max (web_collection (st (start_state tp state0))) = max_attempts tp"
  "errors (st (start_state tp state0)) = Some (case errors state0 of None \<Rightarrow> [] | Some es \<Rightarrow> es)"
  "status (web_collection (st (start_state tp state0))) = ''insufficient''"
  by (simp_all add: start_state_def initial_web_collection_def Let_def split: option.splits)

lemma start_state_inv:
  "dedup_inv up (start_state tp state0)" "alias_inv (start_state tp state0)"
  by (simp_all add: dedup_inv_def alias_inv_def normalized_urls_def start_state_proj)

lemma attempt_errors: "errors (st (fst (attempt env policy cn dm ls))) = errors (st ls)"
proof -
  consider (early) e where "attempt env policy cn dm ls = (counted ls, Raise e)"
    | (late) queries new_docs seen docs r where
        "attempt env policy cn dm ls =
            (case r of
               Some e \<Rightarrow> (merged new_docs seen docs ls, Raise e)
             | None \<Rightarrow> gate_and_record env policy (attempts_current (web_collection (st ls)) + 1)
                         queries (length new_docs) (merged new_docs seen docs ls))"
    using attempt_unfold [of env policy cn dm ls] by blast
  then show ?thesis
  proof cases
    case early
    then show ?thesis by simp
  next
    case late
    then show ?thesis
      by (cases r) (simp_all add: gate_and_record_proj)
  qed
qed

text \<open>A pass that does not raise has gated: the state holds the list and the verdict.\<close>

lemma attempt_gated:
  fixes env :: env and policy :: threshold_profile and cn dm :: string and ls :: loop_state
  defines "a \<equiv> fst (attempt env policy cn dm ls)"
  assumes "exception_of (snd (attempt env policy cn dm ls)) = None"
  shows "documents (web_collection (st a)) = cumulative_docs a
       \<and> doc_count (web_collection (st a)) = length (cumulative_docs a)
       \<and> error (web_collection (st a)) = None
       \<and> status (web_collection (st a)) =
           (if passed (gate (web_collection (st a))) then ''completed''
            else if attempts_max (web_collection (st a)) \<le> attempts_current (web_collection (st a))
                 then ''partial'' else ''insufficient'')
       \<and> snd (attempt env policy cn dm ls) =
           (if passed (gate (web_collection (st a)))
               \<or> attempts_max (web_collection (st a)) \<le> attempts_current (web_collection (st a))
            then Break else Continue)
       \<and> passed (gate (web_collection (st a))) =
           fst (evaluate_gate (urlparse env) (cumulative_docs a) (calculate_statistics (float_mean env) (cumulative_docs a)) policy)"
proof -
  have n: "attempts_current (web_collection (st a)) = attempts_current (web_collection (st ls)) + 1"
    and m: "attempts_max (web_collection (st a)) = attempts_max (web_collection (st ls))"
    using attempt_attempts [of env policy cn dm ls] by (simp_all add: a_def)
  consider (early) e where "attempt env policy cn dm ls = (counted ls, Raise e)"
    | (late) queries new_docs seen docs r where
        "attempt env policy cn dm ls =
            (case r of
               Some e \<Rightarrow> (merged new_docs seen docs ls, Raise e)
             | None \<Rightarrow> gate_and_record env policy (attempts_current (web_collection (st ls)) + 1)
                         queries (length new_docs) (merged new_docs seen docs ls))"
    using attempt_unfold [of env policy cn dm ls] by blast
  then show ?thesis
  proof cases
    case early
    with assms(2) show ?thesis by simp
  next
    case late
    with assms(2) have r: "r = None"
      by (cases r) simp_all
    show ?thesis
      unfolding n m unfolding a_def late r
      by (simp add: gate_and_record_proj)
  qed
qed

lemma loop_trace_elements:
  "\<forall>x \<in> set (loop_trace env policy cn dm ls). \<exists>s. x = attempt env policy cn dm s"
proof (induction "nat (attempts_max (web_collection (st ls)) - attempts_current (web_collection (st ls)))"
    arbitrary: ls rule: less_induct)
  case less
  let ?a = "attempt env policy cn dm ls"
  show ?case
  proof (cases "attempts_current (web_collection (st ls)) < attempts_max (web_collection (st ls))")
    case False
    then show ?thesis
      by (subst loop_trace_unfold) simp
  next
    case True
    have "\<forall>x \<in> set (loop_trace env policy cn dm (fst ?a)). \<exists>s. x = attempt env policy cn dm s"
      using attempt_measure [OF True] by (rule less.hyps)
    with True show ?thesis
      by (subst loop_trace_unfold) auto
  qed
qed

lemma loop_trace_last:
  assumes "x \<in> set (loop_trace env policy cn dm ls)" and "snd x \<noteq> Continue"
  shows "loop_trace env policy cn dm ls \<noteq> [] \<and> x = last (loop_trace env policy cn dm ls)"
proof -
  let ?tr = "loop_trace env policy cn dm ls"
  from assms(1) have ne: "?tr \<noteq> []"
    by auto
  then have "set ?tr = set (butlast ?tr @ [last ?tr])"
    by simp
  then have "x \<in> set (butlast ?tr) \<or> x = last ?tr"
    using assms(1) by auto
  with assms(2) loop_trace_butlast [of env policy cn dm ls] ne show ?thesis
    by blast
qed

lemma loop_trace_errors:
  "\<forall>x \<in> set (loop_trace env policy cn dm ls). errors (st (fst x)) = errors (st ls)"
  by (rule loop_trace_invariant [where P = "\<lambda>s. errors (st s) = errors (st ls)"])
     (simp_all add: attempt_errors)

lemma loop_trace_attempts_max:
  "\<forall>x \<in> set (loop_trace env policy cn dm ls).
     attempts_max (web_collection (st (fst x))) = attempts_max (web_collection (st ls))"
  by (rule loop_trace_invariant [where P = "\<lambda>s. attempts_max (web_collection (st s))
        = attempts_max (web_collection (st ls))"])
     (simp_all add: attempt_attempts)

lemma handle_exception_proj:
  "documents (web_collection (handle_exception env e state)) = documents (web_collection state)"
  "attempts_current (web_collection (handle_exception env e state)) = attempts_current (web_collection state)"
  "status (web_collection (handle_exception env e state)) = ''degraded''"
  "error (web_collection (handle_exception env e state)) = Some (exc_msg e)"
  "errors (handle_exception env e state) = map_option (\<lambda>es. es @
      [\<lparr>err_stage = ''web_collection'', err_error = exc_msg e, err_timestamp = handler_isoformat env,
        err_recovered = False, err_traceback = None, err_impact_on_reliability = ''high''\<rparr>]) (errors state)"
  by (simp_all add: handle_exception_def Let_def)

text \<open>A pass that raises leaves the status alone, and a pass after which the loop goes on leaves
  the status \<^verbatim>\<open>insufficient\<close>: so that is the status when a pass raises.\<close>

lemma attempt_raise_status:
  assumes "snd (attempt env policy cn dm ls) = Raise e"
  shows "status (web_collection (st (fst (attempt env policy cn dm ls)))) = status (web_collection (st ls))"
proof -
  consider (early) e' where "attempt env policy cn dm ls = (counted ls, Raise e')"
    | (late) queries new_docs seen docs r where
        "attempt env policy cn dm ls =
            (case r of
               Some e \<Rightarrow> (merged new_docs seen docs ls, Raise e)
             | None \<Rightarrow> gate_and_record env policy (attempts_current (web_collection (st ls)) + 1)
                         queries (length new_docs) (merged new_docs seen docs ls))"
    using attempt_unfold [of env policy cn dm ls] by blast
  then show ?thesis
  proof cases
    case early
    then show ?thesis by simp
  next
    case late
    with assms show ?thesis
      by (cases r) (simp_all add: gate_and_record_proj split: if_splits)
  qed
qed

lemma attempt_continue_status:
  assumes "snd (attempt env policy cn dm ls) = Continue"
  shows "status (web_collection (st (fst (attempt env policy cn dm ls)))) = ''insufficient''"
proof -
  have "exception_of (snd (attempt env policy cn dm ls)) = None"
    using assms by simp
  note g = attempt_gated [OF this]
  from g assms show ?thesis
    by (simp split: if_splits)
qed

lemma loop_trace_raise_status:
  "status (web_collection (st ls)) = ''insufficient'' \<Longrightarrow>
   (ls', Raise e) \<in> set (loop_trace env policy cn dm ls) \<Longrightarrow>
   status (web_collection (st ls')) = ''insufficient''"
proof (induction "nat (attempts_max (web_collection (st ls)) - attempts_current (web_collection (st ls)))"
    arbitrary: ls rule: less_induct)
  case less
  let ?a = "attempt env policy cn dm ls"
  from less.prems(2) have lt: "attempts_current (web_collection (st ls)) < attempts_max (web_collection (st ls))"
    by (subst (asm) loop_trace_unfold) (simp split: if_splits)
  from less.prems(2) lt have "(ls', Raise e) = ?a
      \<or> (snd ?a = Continue \<and> (ls', Raise e) \<in> set (loop_trace env policy cn dm (fst ?a)))"
    by (subst (asm) loop_trace_unfold) (simp split: if_splits)
  then show ?case
  proof
    assume a: "(ls', Raise e) = ?a"
    then have "snd ?a = Raise e" and "fst ?a = ls'"
      by (simp_all add: prod_eq_iff [of "(ls', Raise e)" ?a, simplified] flip: a)
    with attempt_raise_status [of env policy cn dm ls e] less.prems(1) show ?thesis
      by simp
  next
    assume c: "snd ?a = Continue \<and> (ls', Raise e) \<in> set (loop_trace env policy cn dm (fst ?a))"
    then have s: "status (web_collection (st (fst ?a))) = ''insufficient''"
      by (simp add: attempt_continue_status)
    from c have m: "(ls', Raise e) \<in> set (loop_trace env policy cn dm (fst ?a))"
      by simp
    show ?thesis
      using attempt_measure [OF lt] s m by (rule less.hyps)
  qed
qed

text \<open>What \<^verbatim>\<open>execute\<close> leaves, by the passes of its loop.\<close>

lemma execute_profile_trace:
  fixes env :: env and tp :: threshold_profile and state0 :: pipeline_state
  defines "tr \<equiv> loop_trace env tp (strip (company_name state0)) (strip (domain state0)) (start_state tp state0)"
  shows "execute_profile env tp state0 =
     (if tr = [] then (st (start_state tp state0), None)
      else case exception_of (snd (last tr)) of
             None \<Rightarrow> (st (fst (last tr)), None)
           | Some e \<Rightarrow>
               if exc_is_Exception e then (handle_exception env e (st (fst (last tr))), None)
               else (st (fst (last tr)), Some e))"
  unfolding tr_def by (simp add: execute_profile_def run_loop_trace Let_def)

lemma execute_profile_documents:
  fixes env :: env and tp :: threshold_profile and state0 :: pipeline_state
  defines "start \<equiv> start_state tp state0"
  defines "tr \<equiv> loop_trace env tp (strip (company_name state0)) (strip (domain state0)) (start_state tp state0)"
  shows "documents (web_collection (fst (execute_profile env tp state0)))
           = documents (web_collection (st (last (start # map fst tr))))"
proof (cases "tr = []")
  case True
  then show ?thesis
    using execute_profile_trace [of env tp state0] by (simp add: tr_def start_def)
next
  case False
  then have "last (start # map fst tr) = fst (last tr)"
    by (simp add: last_map)
  with False show ?thesis
    using execute_profile_trace [of env tp state0]
    by (simp add: tr_def handle_exception_proj split: option.splits)
qed

subsection \<open>The example runs\<close>

lemma example_run_length:
  "length (loop_trace example_env default_profile (strip (company_name example_state))
             (strip (domain example_state)) (start_state default_profile example_state)) = 2"
  by code_simp

lemma example_run_sizes:
  "map (\<lambda>x. map doc_id (cumulative_docs (fst x)))
     (loop_trace example_env default_profile (strip (company_name example_state))
        (strip (domain example_state)) (start_state default_profile example_state))
   = [[''web_1''], [''web_1'', ''web_5'']]"
  by code_simp

lemma example_run_documents:
  "map doc_id (documents (web_collection (fst (execute_profile example_env default_profile example_state))))
     = [''web_1'', ''web_5'']"
  by code_simp

lemma example_run_no_exception:
  "exception_of (snd (last (loop_trace example_env default_profile (strip (company_name example_state))
             (strip (domain example_state)) (start_state default_profile example_state)))) = None"
  by code_simp

lemma example_run_exhausted:
  "attempts_current (web_collection (st (fst (last (loop_trace example_env default_profile
      (strip (company_name example_state)) (strip (domain example_state))
      (start_state default_profile example_state)))))) = max_attempts default_profile"
  by code_simp

lemma example_run_gate_fails:
  "\<not> fst (evaluate_gate (urlparse example_env)
      (cumulative_docs (fst (last (loop_trace example_env default_profile
         (strip (company_name example_state)) (strip (domain example_state))
         (start_state default_profile example_state)))))
      (calculate_statistics (float_mean example_env) (cumulative_docs (fst (last (loop_trace example_env default_profile
         (strip (company_name example_state)) (strip (domain example_state))
         (start_state default_profile example_state))))))
      default_profile)"
  by code_simp

lemma example_aware_run_ends:
  "map (\<lambda>x. (attempts_current (web_collection (st (fst x))), snd x))
     (loop_trace example_env_aware default_profile (strip (company_name example_state))
        (strip (domain example_state)) (start_state default_profile example_state))
   = [(1, Continue),
      (2, Raise (Raised ''TypeError'' True
            (''can'' @ [CHR 0x27] @ ''t subtract offset-naive and offset-aware datetimes'')))]"
  by code_simp

subsection \<open>Deduplication across attempts\<close>

lemma extends_refl: "extends xs xs"
  by (simp add: extends_def)

lemma extends_trans: "extends xs ys \<Longrightarrow> extends ys zs \<Longrightarrow> extends xs zs"
  unfolding extends_def by (rule prefix_order.trans)

lemma extends_length: "extends xs ys \<Longrightarrow> length xs \<le> length ys"
  unfolding extends_def using prefix_length_le by fastforce

lemma attempt_seen: "seen_urls ls \<subseteq> seen_urls (fst (attempt env policy cn dm ls))"
  using attempt_effect [of env policy cn dm ls] by auto

lemma sorted_wrt_nth_le:
  assumes "sorted_wrt R xs" and "\<And>x. R x x" and "i \<le> j" and "j < length xs"
  shows "R (xs ! i) (xs ! j)"
proof (cases "i = j")
  case True
  then show ?thesis by (simp add: assms(2))
next
  case False
  with assms(3) have "i < j" by simp
  with assms(1,4) show ?thesis
    by (simp add: sorted_wrt_iff_nth_less)
qed

text \<open>
  C3. After every pass of a run, no two documents of the cumulative list have one
  normalized URL, none is without a URL, and the seen-set holds the normalized URL of each;
  the seen-set of an earlier pass is part of that of every later pass; the documents of the
  state that \<^verbatim>\<open>execute\<close> returns (or leaves to the caller, when an exception passes the
  handler) have pairwise different normalized URLs. The normalized URL of a URL
  that \<^verbatim>\<open>urlparse\<close> splits is scheme, \<^verbatim>\<open>://\<close>, lower-cased host and path, without query and
  fragment. Step 4 keeps no hit without a URL and none whose normalized URL is seen, and
  adds the normalized URLs of those it keeps to the seen-set.
\<close>

theorem cumulative_urls_distinct:
  fixes env :: env and policy :: threshold_profile and input :: pipeline_state
  defines "up \<equiv> urlparse env"
  defines "tr \<equiv> loop_trace env policy (strip (company_name input)) (strip (domain input))
                   (start_state policy input)"
  shows "(\<forall>x \<in> set tr. distinct (normalized_urls up (cumulative_docs (fst x)))
                     \<and> set (normalized_urls up (cumulative_docs (fst x))) \<subseteq> seen_urls (fst x)
                     \<and> [] \<notin> set (map url (cumulative_docs (fst x))))
       \<and> (\<forall>i j. i \<le> j \<and> j < length tr \<longrightarrow> seen_urls (fst (tr ! i)) \<subseteq> seen_urls (fst (tr ! j)))
       \<and> distinct (normalized_urls up (documents (web_collection (fst (execute_profile env policy input)))))
       \<and> (up u = Some p \<longrightarrow> normalize_url up u = scheme p @ ''://'' @ lower (netloc p) @ path p)
       \<and> (dedup up hits seen = (new_docs, seen') \<longrightarrow>
            (\<forall>d \<in> set new_docs. url d \<noteq> [] \<and> normalize_url up (url d) \<notin> seen)
            \<and> distinct (normalized_urls up new_docs)
            \<and> seen' = seen \<union> set (normalized_urls up new_docs))"
proof -
  let ?cn = "strip (company_name input)" and ?dm = "strip (domain input)"
  let ?start = "start_state policy input"
  have inv: "\<forall>x \<in> set tr. dedup_inv up (fst x)"
    unfolding tr_def up_def
    by (rule loop_trace_invariant [where P = "dedup_inv (urlparse env)"])
       (simp_all add: attempt_dedup_inv start_state_inv)
  have al: "\<forall>x \<in> set tr. alias_inv (fst x)"
    unfolding tr_def
    by (rule loop_trace_invariant [where P = alias_inv]) (simp_all add: attempt_alias_inv start_state_inv)
  have a: "\<forall>x \<in> set tr. distinct (normalized_urls up (cumulative_docs (fst x)))
                     \<and> set (normalized_urls up (cumulative_docs (fst x))) \<subseteq> seen_urls (fst x)
                     \<and> [] \<notin> set (map url (cumulative_docs (fst x)))"
    using inv by (simp add: dedup_inv_def)
  have "sorted_wrt (\<lambda>a b. seen_urls (fst a) \<subseteq> seen_urls (fst b)) tr"
    unfolding tr_def
    using loop_trace_chain [where I = "\<lambda>s. True" and R = "\<lambda>a b. seen_urls a \<subseteq> seen_urls b"
        and env = env and policy = policy and cn = ?cn and dm = ?dm and ls = ?start]
      attempt_seen
    by blast
  then have b: "\<forall>i j. i \<le> j \<and> j < length tr \<longrightarrow> seen_urls (fst (tr ! i)) \<subseteq> seen_urls (fst (tr ! j))"
    using sorted_wrt_nth_le [where R = "\<lambda>a b. seen_urls (fst a) \<subseteq> seen_urls (fst b)" and xs = tr]
    by blast
  have c: "distinct (normalized_urls up (documents (web_collection (fst (execute_profile env policy input)))))"
  proof (cases "tr = []")
    case True
    then show ?thesis
      using execute_profile_documents [of env policy input]
      by (simp add: tr_def start_state_proj normalized_urls_def)
  next
    case False
    then have l: "last tr \<in> set tr" and e: "last (?start # map fst tr) = fst (last tr)"
      by (simp_all add: last_map)
    from l inv al have "dedup_inv up (fst (last tr))" and "alias_inv (fst (last tr))"
      by blast+
    then have "distinct (normalized_urls up (documents (web_collection (st (fst (last tr))))))"
      by (simp add: dedup_inv_def alias_inv_def normalized_urls_def)
    then show ?thesis
      using execute_profile_documents [of env policy input] e
      by (simp add: tr_def)
  qed
  have d: "up u = Some p \<longrightarrow> normalize_url up u = scheme p @ ''://'' @ lower (netloc p) @ path p"
    by (simp add: normalize_url_def)
  have e: "dedup up hits seen = (new_docs, seen') \<longrightarrow>
            (\<forall>d \<in> set new_docs. url d \<noteq> [] \<and> normalize_url up (url d) \<notin> seen)
            \<and> distinct (normalized_urls up new_docs)
            \<and> seen' = seen \<union> set (normalized_urls up new_docs)"
    using dedup_facts [of up hits seen new_docs seen'] by (simp add: normalized_urls_def)
  from a b c d e show ?thesis
    by blast
qed

theorem cumulative_urls_distinct_witness:
  "length (loop_trace example_env default_profile (strip (company_name example_state))
             (strip (domain example_state)) (start_state default_profile example_state)) = 2
   \<and> length (example_hits 1 @ example_hits 2) = 5
   \<and> map doc_id (documents (web_collection (fst (execute_profile example_env default_profile example_state))))
        = [''web_1'', ''web_5'']
   \<and> distinct (normalized_urls example_urlparse
        (documents (web_collection (fst (execute_profile example_env default_profile example_state)))))
   \<and> normalize_url example_urlparse ''https://Acme.com/about?ref=2#team'' = ''https://acme.com/about''
   \<and> normalize_url example_urlparse ''https://acme.com/about?ref=1'' = ''https://acme.com/about''"
proof -
  have u: "urlparse example_env = example_urlparse"
    by (simp add: example_env_def)
  note l = example_run_length
  have h: "length (example_hits 1 @ example_hits 2) = 5"
    by code_simp
  note i = example_run_documents [unfolded execute_profile_def [symmetric]]
  have p: "example_urlparse ''https://Acme.com/about?ref=2#team''
      = Some \<lparr>scheme = ''https'', netloc = ''Acme.com'', path = ''/about'', params = [],
               query = ''ref=2'', fragment = ''team''\<rparr>"
    by code_simp
  have lw: "lower ''Acme.com'' = ''acme.com''"
    by code_simp
  have n2: "normalize_url example_urlparse ''https://acme.com/about?ref=1'' = ''https://acme.com/about''"
    by code_simp
  note t = cumulative_urls_distinct [where env = example_env and policy = default_profile
      and input = example_state and u = "''https://Acme.com/about?ref=2#team''"
      and p = "\<lparr>scheme = ''https'', netloc = ''Acme.com'', path = ''/about'', params = [],
               query = ''ref=2'', fragment = ''team''\<rparr>", unfolded u]
  from t have d: "distinct (normalized_urls example_urlparse
        (documents (web_collection (fst (execute_profile example_env default_profile example_state)))))"
    by blast
  from t p have "normalize_url example_urlparse ''https://Acme.com/about?ref=2#team''
      = scheme \<lparr>scheme = ''https'', netloc = ''Acme.com'', path = ''/about'', params = [],
               query = ''ref=2'', fragment = ''team''\<rparr> @ ''://'' @
        lower (netloc \<lparr>scheme = ''https'', netloc = ''Acme.com'', path = ''/about'', params = [],
               query = ''ref=2'', fragment = ''team''\<rparr>) @
        path \<lparr>scheme = ''https'', netloc = ''Acme.com'', path = ''/about'', params = [],
               query = ''ref=2'', fragment = ''team''\<rparr>"
    by blast
  then have n1: "normalize_url example_urlparse ''https://Acme.com/about?ref=2#team'' = ''https://acme.com/about''"
    by (simp add: lw)
  from l h i d n1 n2 show ?thesis
    by blast
qed

subsection \<open>The cumulative list only grows\<close>

lemma grows_refl: "grows a a"
  by (simp add: grows_def extends_refl)

lemma grows_trans: "grows a b \<Longrightarrow> grows b c \<Longrightarrow> grows a c"
  unfolding grows_def using extends_trans by blast

lemma attempt_grows: "alias_inv s \<Longrightarrow> grows s (fst (attempt env policy cn dm s))"
  by (simp add: grows_def attempt_extends attempt_extends_documents)

text \<open>The states of a run, from the start on, in order: each has grown out of those before it.\<close>

lemma run_grows:
  fixes env :: env and policy :: threshold_profile and input :: pipeline_state
  defines "states \<equiv> start_state policy input #
     map fst (loop_trace env policy (strip (company_name input)) (strip (domain input))
                (start_state policy input))"
  assumes "i \<le> j" and "j < length states"
  shows "grows (states ! i) (states ! j)"
proof -
  let ?cn = "strip (company_name input)" and ?dm = "strip (domain input)"
  let ?start = "start_state policy input"
  let ?tr = "loop_trace env policy ?cn ?dm ?start"
  have "sorted_wrt (\<lambda>a b. grows (fst a) (fst b)) ?tr \<and> (\<forall>x \<in> set ?tr. grows ?start (fst x))"
    by (rule loop_trace_chain [where I = alias_inv and R = grows, OF attempt_alias_inv attempt_grows grows_trans])
       (simp_all add: start_state_inv)
  then have "sorted_wrt grows states"
    by (simp add: states_def sorted_wrt_map)
  then show ?thesis
    using grows_refl assms(2,3) by (rule sorted_wrt_nth_le)
qed

text \<open>
  C4. In a run, the loop's cumulative list and the state's \<^verbatim>\<open>documents\<close> at any earlier
  point (the start, or after a pass) are, document by document and in order, the front of
  those at any later point, whatever way each pass ends (retry, break or exception); so
  neither gets shorter, and the state that \<^verbatim>\<open>execute\<close> returns (or leaves to the caller,
  when an exception passes the handler) has the \<^verbatim>\<open>documents\<close> of the last point.
\<close>

theorem cumulative_docs_monotone:
  fixes env :: env and policy :: threshold_profile and input :: pipeline_state
  defines "states \<equiv> start_state policy input #
     map fst (loop_trace env policy (strip (company_name input)) (strip (domain input))
                (start_state policy input))"
  shows "(\<forall>i j. i \<le> j \<and> j < length states \<longrightarrow>
            extends (cumulative_docs (states ! i)) (cumulative_docs (states ! j))
          \<and> length (cumulative_docs (states ! i)) \<le> length (cumulative_docs (states ! j))
          \<and> extends (documents (web_collection (st (states ! i))))
                     (documents (web_collection (st (states ! j))))
          \<and> length (documents (web_collection (st (states ! i))))
               \<le> length (documents (web_collection (st (states ! j)))))
       \<and> documents (web_collection (fst (execute_profile env policy input)))
           = documents (web_collection (st (last states)))"
proof -
  have r: "\<And>i j. i \<le> j \<Longrightarrow> j < length states \<Longrightarrow> grows (states ! i) (states ! j)"
    unfolding states_def by (rule run_grows)
  have a: "\<forall>i j. i \<le> j \<and> j < length states \<longrightarrow>
            extends (cumulative_docs (states ! i)) (cumulative_docs (states ! j))
          \<and> length (cumulative_docs (states ! i)) \<le> length (cumulative_docs (states ! j))
          \<and> extends (documents (web_collection (st (states ! i))))
                     (documents (web_collection (st (states ! j))))
          \<and> length (documents (web_collection (st (states ! i))))
               \<le> length (documents (web_collection (st (states ! j))))"
    using r extends_length unfolding grows_def by blast
  have b: "documents (web_collection (fst (execute_profile env policy input)))
           = documents (web_collection (st (last states)))"
    unfolding states_def by (rule execute_profile_documents)
  from a b show ?thesis
    by blast
qed

subsection \<open>How a run ends\<close>

text \<open>
  C6. If the last pass of a run did not raise, was the attempt whose number is
  \<open>max_attempts\<close>, and its gate failed, then \<^verbatim>\<open>execute\<close> returns the status \<^verbatim>\<open>partial\<close>, no
  error, and as \<^verbatim>\<open>documents\<close> the cumulative list of that pass, which holds the cumulative
  list of every pass before it at its front; and it does return: no exception leaves it.
\<close>

theorem exhausted_attempts_partial:
  fixes env :: env and policy :: threshold_profile and input :: pipeline_state
  defines "tr \<equiv> loop_trace env policy (strip (company_name input)) (strip (domain input))
                   (start_state policy input)"
  defines "result \<equiv> fst (execute_profile env policy input)"
  assumes "tr \<noteq> []"
    and "exception_of (snd (last tr)) = None"
    and "attempts_current (web_collection (st (fst (last tr)))) = max_attempts policy"
    and "\<not> fst (evaluate_gate (urlparse env) (cumulative_docs (fst (last tr)))
                 (calculate_statistics (float_mean env) (cumulative_docs (fst (last tr)))) policy)"
  shows "status (web_collection result) = ''partial''
       \<and> error (web_collection result) = None
       \<and> documents (web_collection result) = cumulative_docs (fst (last tr))
       \<and> doc_count (web_collection result) = length (cumulative_docs (fst (last tr)))
       \<and> list_all (\<lambda>x. extends (cumulative_docs (fst x)) (documents (web_collection result))) tr
       \<and> snd (execute_profile env policy input) = None"
proof -
  let ?cn = "strip (company_name input)" and ?dm = "strip (domain input)"
  let ?start = "start_state policy input"
  let ?last = "fst (last tr)"
  have res: "result = st ?last" and ret: "snd (execute_profile env policy input) = None"
    using assms(3,4) execute_profile_trace [of env policy input]
    by (simp_all add: result_def tr_def)
  have l: "last tr \<in> set tr"
    using assms(3) by simp
  then obtain s where s: "last tr = attempt env policy ?cn ?dm s"
    using loop_trace_elements [of env policy ?cn ?dm ?start] by (auto simp: tr_def)
  have mx: "attempts_max (web_collection (st ?last)) = max_attempts policy"
    using l loop_trace_attempts_max [of env policy ?cn ?dm ?start]
    by (auto simp: tr_def start_state_proj)
  note g = attempt_gated [of env policy ?cn ?dm s, folded s, OF assms(4)]
  from g assms(6) have np: "\<not> passed (gate (web_collection (st ?last)))"
    by simp
  with g mx assms(5) have a: "status (web_collection (st ?last)) = ''partial''"
    by simp
  have "\<forall>x \<in> set tr. extends (cumulative_docs (fst x)) (cumulative_docs ?last)"
  proof
    fix x assume "x \<in> set tr"
    then obtain i where i: "i < length tr" and x: "x = tr ! i"
      by (auto simp: in_set_conv_nth)
    let ?states = "?start # map fst tr"
    have "grows (?states ! Suc i) (?states ! length tr)"
      unfolding tr_def using i by (intro run_grows) (simp_all add: tr_def)
    then show "extends (cumulative_docs (fst x)) (cumulative_docs ?last)"
      using i x assms(3) by (simp add: last_conv_nth grows_def)
  qed
  with g have e: "list_all (\<lambda>x. extends (cumulative_docs (fst x)) (documents (web_collection (st ?last)))) tr"
    by (simp add: list_all_iff)
  from a g e ret show ?thesis
    unfolding res by simp
qed

text \<open>
  C7, as the code has it. If a pass of a run raises an exception \<open>e\<close>, then that pass is the
  last (no further attempt is started: the attempt counter stays at the number of that
  pass, which is the number of passes made). If the class of \<open>e\<close> derives from \<^verbatim>\<open>Exception\<close>,
  \<^verbatim>\<open>execute\<close> returns, and the state it returns has the status \<^verbatim>\<open>degraded\<close>, the message of
  \<open>e\<close> as error, and one more entry in its error list, with the stage \<^verbatim>\<open>web_collection\<close>,
  the message, a timestamp and the impact \<^verbatim>\<open>high\<close>. If it does not (\<^verbatim>\<open>KeyboardInterrupt\<close>,
  \<^verbatim>\<open>SystemExit\<close>, \<^verbatim>\<open>GeneratorExit\<close>), \<open>e\<close> leaves \<^verbatim>\<open>execute\<close>, and the state is as the pass left
  it: the status \<^verbatim>\<open>insufficient\<close> and no new entry in the error list.
\<close>

theorem exception_degrades:
  fixes env :: env and policy :: threshold_profile and input :: pipeline_state
  defines "tr \<equiv> loop_trace env policy (strip (company_name input)) (strip (domain input))
                   (start_state policy input)"
  defines "result \<equiv> fst (execute_profile env policy input)"
  defines "escaped \<equiv> snd (execute_profile env policy input)"
  assumes "(ls, Raise e) \<in> set tr"
  shows "last tr = (ls, Raise e)
       \<and> attempts_current (web_collection result) = attempts_current (web_collection (st ls))
       \<and> attempts_current (web_collection result) = int (length tr)
       \<and> (if exc_is_Exception e
          then escaped = None
             \<and> status (web_collection result) = ''degraded''
             \<and> error (web_collection result) = Some (exc_msg e)
             \<and> errors result = Some ((case errors input of None \<Rightarrow> [] | Some es \<Rightarrow> es) @
                 [\<lparr>err_stage = ''web_collection'', err_error = exc_msg e,
                   err_timestamp = handler_isoformat env, err_recovered = False,
                   err_traceback = None, err_impact_on_reliability = ''high''\<rparr>])
          else escaped = Some e
             \<and> result = st ls
             \<and> status (web_collection result) = ''insufficient''
             \<and> errors result = Some (case errors input of None \<Rightarrow> [] | Some es \<Rightarrow> es))"
proof -
  let ?cn = "strip (company_name input)" and ?dm = "strip (domain input)"
  let ?start = "start_state policy input"
  have ne: "tr \<noteq> []" and l: "last tr = (ls, Raise e)"
    using loop_trace_last [of "(ls, Raise e)" env policy ?cn ?dm ?start] assms(4)
    by (simp_all add: tr_def)
  have res: "execute_profile env policy input =
      (if exc_is_Exception e then (handle_exception env e (st ls), None) else (st ls, Some e))"
    using ne l execute_profile_trace [of env policy input]
    by (simp add: tr_def)
  have er: "errors (st ls) = Some (case errors input of None \<Rightarrow> [] | Some es \<Rightarrow> es)"
    using assms(4) loop_trace_errors [of env policy ?cn ?dm ?start]
    by (auto simp: tr_def start_state_proj)
  have s: "status (web_collection (st ls)) = ''insufficient''"
    using assms(4) unfolding tr_def
    by (intro loop_trace_raise_status [of ?start ls e env policy ?cn ?dm]) (simp_all add: start_state_proj)
  obtain k where k: "length tr = Suc k"
    using ne by (cases tr) auto
  then have "k < length tr"
    by simp
  then have "attempts_current (web_collection (st (fst (tr ! k))))
       = attempts_current (web_collection (st ?start)) + int k + 1"
    unfolding tr_def by (rule loop_trace_numbers)
  moreover have "tr ! k = (ls, Raise e)"
    using ne l k by (simp add: last_conv_nth)
  ultimately have n: "attempts_current (web_collection (st ls)) = int (length tr)"
    using k by (simp add: start_state_proj)
  show ?thesis
  proof (cases "exc_is_Exception e")
    case True
    with l n er show ?thesis
      unfolding result_def escaped_def res by (simp add: handle_exception_proj)
  next
    case False
    with l n er s show ?thesis
      unfolding result_def escaped_def res by simp
  qed
qed

subsection \<open>The properties at the example runs\<close>

theorem cumulative_docs_monotone_witness:
  "map (\<lambda>s. length (cumulative_docs s))
     (start_state default_profile example_state #
      map fst (loop_trace example_env default_profile (strip (company_name example_state))
                 (strip (domain example_state)) (start_state default_profile example_state)))
     = [0, 1, 2]
   \<and> extends
       (cumulative_docs (fst (loop_trace example_env default_profile (strip (company_name example_state))
                 (strip (domain example_state)) (start_state default_profile example_state) ! 0)))
       (cumulative_docs (fst (loop_trace example_env default_profile (strip (company_name example_state))
                 (strip (domain example_state)) (start_state default_profile example_state) ! 1)))"
proof -
  let ?tr = "loop_trace example_env default_profile (strip (company_name example_state))
                 (strip (domain example_state)) (start_state default_profile example_state)"
  let ?states = "start_state default_profile example_state # map fst ?tr"
  have h: "(1::nat) \<le> 2 \<and> 2 < length ?states"
    by (simp add: example_run_length)
  have "map (\<lambda>s. length (cumulative_docs s)) ?states
          = 0 # map length (map (\<lambda>x. map doc_id (cumulative_docs (fst x))) ?tr)"
    by (simp add: start_state_proj comp_def)
  then have a: "map (\<lambda>s. length (cumulative_docs s)) ?states = [0, 1, 2]"
    by (simp only: example_run_sizes) simp
  from cumulative_docs_monotone [of default_profile example_state example_env] h
  have "extends (cumulative_docs (?states ! 1)) (cumulative_docs (?states ! 2))"
    by blast
  then have "extends (cumulative_docs (fst (?tr ! 0))) (cumulative_docs (fst (?tr ! 1)))"
    using example_run_length by simp
  with a show ?thesis
    by blast
qed

theorem exhausted_attempts_partial_witness:
  "loop_trace example_env default_profile (strip (company_name example_state))
      (strip (domain example_state)) (start_state default_profile example_state) \<noteq> []
   \<and> status (web_collection (fst (execute_profile example_env default_profile example_state))) = ''partial''
   \<and> map doc_id (documents (web_collection (fst (execute_profile example_env default_profile example_state))))
       = [''web_1'', ''web_5'']
   \<and> doc_count (web_collection (fst (execute_profile example_env default_profile example_state))) = 2"
proof -
  let ?tr = "loop_trace example_env default_profile (strip (company_name example_state))
                 (strip (domain example_state)) (start_state default_profile example_state)"
  have ne: "?tr \<noteq> []"
    using example_run_length by auto
  note t = exhausted_attempts_partial [OF ne example_run_no_exception example_run_exhausted
      example_run_gate_fails]
  from t have s: "status (web_collection (fst (execute_profile example_env default_profile example_state))) = ''partial''"
    by blast
  from t have d: "documents (web_collection (fst (execute_profile example_env default_profile example_state)))
      = cumulative_docs (fst (last ?tr))"
    and c: "doc_count (web_collection (fst (execute_profile example_env default_profile example_state)))
      = length (cumulative_docs (fst (last ?tr)))"
    by blast+
  have "length (map doc_id (documents (web_collection (fst (execute_profile example_env default_profile example_state))))) = 2"
    by (simp only: example_run_documents) simp
  with c d have n: "doc_count (web_collection (fst (execute_profile example_env default_profile example_state))) = 2"
    by simp
  from ne s n example_run_documents show ?thesis
    by blast
qed

theorem exception_degrades_witness:
  "length (loop_trace example_env_aware default_profile (strip (company_name example_state))
        (strip (domain example_state)) (start_state default_profile example_state)) = 2
   \<and> attempts_current (web_collection (fst (execute_profile example_env_aware default_profile example_state))) = 2
   \<and> status (web_collection (fst (execute_profile example_env_aware default_profile example_state))) = ''degraded''
   \<and> error (web_collection (fst (execute_profile example_env_aware default_profile example_state)))
       = Some (''can'' @ [CHR 0x27] @ ''t subtract offset-naive and offset-aware datetimes'')
   \<and> map_option (map err_impact_on_reliability)
        (errors (fst (execute_profile example_env_aware default_profile example_state))) = Some [''high'']"
proof -
  let ?tr = "loop_trace example_env_aware default_profile (strip (company_name example_state))
        (strip (domain example_state)) (start_state default_profile example_state)"
  let ?e = "Raised ''TypeError'' True (''can'' @ [CHR 0x27] @ ''t subtract offset-naive and offset-aware datetimes'')"
  have len: "length ?tr = 2"
    using arg_cong [OF example_aware_run_ends, of length] by simp
  have "snd (?tr ! 1) = Raise ?e"
    using arg_cong [OF example_aware_run_ends, of "\<lambda>xs. snd (xs ! 1)"] len by simp
  then have "(fst (?tr ! 1), Raise ?e) = ?tr ! 1"
    by (simp add: prod_eq_iff)
  then have m: "(fst (?tr ! 1), Raise ?e) \<in> set ?tr"
    using len by (metis nth_mem one_less_numeral_iff semiring_norm(76))
  have er: "errors example_state = None"
    by (simp add: example_state_def)
  note t = exception_degrades [OF m, unfolded er len]
  from t len show ?thesis
    by simp
qed

text \<open>
  C7, as the claim states it, fails: a run whose second search is interrupted from the
  keyboard does not return. The exception reaches the caller, and the state has the status
  that the first attempt left, no error and no entry in the error list.
\<close>

theorem exception_escapes_counterexample:
  "map (\<lambda>x. (attempts_current (web_collection (st (fst x))), snd x))
     (loop_trace example_env_interrupt default_profile (strip (company_name example_state))
        (strip (domain example_state)) (start_state default_profile example_state))
     = [(1, Continue), (2, Raise (Raised ''KeyboardInterrupt'' False []))]
   \<and> snd (execute example_env_interrupt example_state) = Some (Raised ''KeyboardInterrupt'' False [])
   \<and> status (web_collection (fst (execute example_env_interrupt example_state))) = ''insufficient''
   \<and> status (web_collection (fst (execute example_env_interrupt example_state))) \<noteq> ''degraded''
   \<and> error (web_collection (fst (execute example_env_interrupt example_state))) = None
   \<and> errors (fst (execute example_env_interrupt example_state)) = Some []"
  by code_simp

end
